theory Spec2Isabelle
  imports Main
begin

section \<open>Shared vocabulary of the two command-line front-ends\<close>

text \<open>
  \<^verbatim>\<open>mdnsd.c\<close> and \<^verbatim>\<open>mquery.c\<close> are event loops around an mDNS engine
  (\<^verbatim>\<open>libmdnsd\<close>) and the socket layer of the operating system. Neither of the two
  is part of the sources at hand, so the calls into the engine, the socket layer, the log
  and the process environment are recorded, in program order, as the \<open>event\<close>s of a
  trace, and every value they hand back is read from an explicit environment argument.
  A function of the model returns the events it performed together with its result.
  An event carries the arguments of the call and, where the program branches on it, what
  the call returned. Format strings are recorded without their arguments and without the
  final newline.
\<close>

record timeval =
  tv_sec :: int
  tv_usec :: int

datatype sockopt =
    SO_REUSEPORT | SO_REUSEADDR | SO_RCVBUF | SO_BINDTODEVICE
  | IP_PKTINFO | IP_MULTICAST_IF | IP_MULTICAST_LOOP | IP_MULTICAST_ALL
  | IP_MULTICAST_TTL | IP_TTL | IP_ADD_MEMBERSHIP

text \<open>The object a \<^verbatim>\<open>setsockopt\<close> call points at: an \<^verbatim>\<open>int\<close>, an
  \<^verbatim>\<open>unsigned char\<close>, an interface name, a \<^verbatim>\<open>struct ip_mreqn\<close> (group address
  set or not, interface index) or a \<^verbatim>\<open>struct ip_mreq\<close> on \<^verbatim>\<open>INADDR_ANY\<close>.\<close>

datatype optval =
    V_int int
  | V_uchar nat
  | V_name string
  | V_mreqn bool int
  | V_mreq_any

datatype loglevel = ERR | WARN | NOTE | INFO | DBG

datatype signal = SIGINT | SIGHUP | SIGQUIT | SIGTERM

type_synonym daemon = nat

type_synonym packet = "nat list"

datatype event =
    Ev_socket int
  | Ev_setsockopt int sockopt optval
  | Ev_getsockopt int sockopt
  | Ev_if_nametoindex string
  | Ev_bind int nat int
  | Ev_close int
  | Ev_log loglevel string
  | Ev_getopt char string
  | Ev_atoi string int
  | Ev_printf string
  | Ev_puts string
  | Ev_log_open
  | Ev_log_level string int
  | Ev_signal signal
  | Ev_daemon int
  | Ev_pidfile
  | Ev_iface_init
  | Ev_iface_exit
  | Ev_mdnsd_new "daemon option"
  | Ev_conf_init string
  | Ev_register_receive_callback
  | Ev_mdnsd_set_address "daemon option"
  | Ev_records_clear "daemon option"
  | Ev_mdnsd_shutdown "daemon option"
  | Ev_mdnsd_free "daemon option"
  | Ev_mdnsd_step "daemon option" int bool
  | Ev_mdnsd_query string int
  | Ev_mdnsd_sleep timeval
  | Ev_select int timeval
  | Ev_recvfrom int int
  | Ev_message_parse packet int
  | Ev_mdnsd_in packet
  | Ev_mdnsd_out bool
  | Ev_sendto packet int
  | Ev_time int

text \<open>What the socket calls of one socket set-up return. Every option is set at most
  once per socket, so the return value of \<^verbatim>\<open>setsockopt\<close> is looked up by option.\<close>

record sock_env =
  socket_ret :: int
  setsockopt_ret :: "sockopt \<Rightarrow> int"
  getsockopt_ret :: int
  rcvbuf :: int
  if_nametoindex_ret :: int
  bind_ret :: int

text \<open>The build configuration (\<^verbatim>\<open>config.h\<close> and the system headers).\<close>

record build =
  have_so_reuseport :: bool
  have_ip_mreqn :: bool

definition EINTR :: int where
  "EINTR = 4"

definition EAGAIN :: int where
  "EAGAIN = 11"

text \<open>\<^verbatim>\<open>if (setsockopt(sd, ..., opt, &val, ...)) LOG(msg)\<close>.\<close>

definition setsockopt_or_log ::
  "sock_env \<Rightarrow> int \<Rightarrow> sockopt \<Rightarrow> optval \<Rightarrow> loglevel \<Rightarrow> string \<Rightarrow> event list" where
  "setsockopt_or_log env fd opt v lvl msg =
     Ev_setsockopt fd opt v # (if setsockopt_ret env opt \<noteq> 0 then [Ev_log lvl msg] else [])"

text \<open>The values a trace passes to \<^verbatim>\<open>setsockopt\<close> for one option, in order.\<close>

fun sockopt_values :: "sockopt \<Rightarrow> event list \<Rightarrow> optval list" where
  "sockopt_values opt [] = []"
| "sockopt_values opt (Ev_setsockopt fd opt' v # es) =
     (if opt' = opt then v # sockopt_values opt es else sockopt_values opt es)"
| "sockopt_values opt (e # es) = sockopt_values opt es"

section \<open>mdnsd.c: the responder daemon\<close>

subsection \<open>State\<close>

text \<open>\<^verbatim>\<open>struct iface\<close> (declared in \<^verbatim>\<open>mdnsd.h\<close>), with the fields
  \<^verbatim>\<open>mdnsd.c\<close> reads and writes. \<open>mdns\<close> is the pointer to the interface's engine
  context, \<open>None\<close> for \<^verbatim>\<open>NULL\<close>. Of the functions outside \<^verbatim>\<open>mdnsd.c\<close> only
  \<^verbatim>\<open>iface_init\<close> is taken to write these fields.\<close>

record iface =
  ifname :: string
  ifindex :: int
  hostid :: int
  changed :: int
  unused :: int
  sd :: int
  mdns :: "daemon option"

text \<open>The file's globals, the interface list kept by \<^verbatim>\<open>iface.c\<close>, and the locals of
  \<^verbatim>\<open>main\<close> and \<^verbatim>\<open>sys_timeout\<close> that live across loop passes.\<close>

record state =
  running :: int
  reload :: int
  ifname_arg :: "string option"
  path :: string
  background :: int
  logging :: int
  ttl :: int
  ifaces :: "iface list"
  timeout :: int
  tv :: timeval
  before :: int

definition SYS_INTERVAL :: int where
  "SYS_INTERVAL = 10"

text \<open>\<open>hostid\<close> is an \<^verbatim>\<open>int\<close> of 32 bits. \<open>int_wrap\<close> brings the result of an
  addition back into its range, which is how \<^verbatim>\<open>hostid++\<close> comes out at \<open>INT_MAX\<close>
  on a two's-complement machine (C leaves that overflow undefined).\<close>

definition INT_MIN :: int where
  "INT_MIN = - 2147483648"

definition INT_MAX :: int where
  "INT_MAX = 2147483647"

definition int_wrap :: "int \<Rightarrow> int" where
  "int_wrap x = (x + 2147483648) mod 4294967296 - 2147483648"

text \<open>The initial values of the globals (lines 49--56) and of \<^verbatim>\<open>main\<close>'s locals
  \<^verbatim>\<open>tv = { 0 }\<close> and \<^verbatim>\<open>timeout = 0\<close>. \<open>path\<close> is assigned before it is read.\<close>

definition init_state :: state where
  "init_state =
     \<lparr> running = 1, reload = 0, ifname_arg = None, path = [], background = 1,
       logging = 1, ttl = 255, ifaces = [], timeout = 0,
       tv = \<lparr> tv_sec = 0, tv_usec = 0 \<rparr>, before = 0 \<rparr>"

text \<open>The cast \<^verbatim>\<open>(unsigned char)ttl\<close>.\<close>

definition uchar :: "int \<Rightarrow> nat" where
  "uchar x = nat (x mod 256)"

subsection \<open>The conflict callback and the signal handlers\<close>

text \<open>\<^verbatim>\<open>mdnsd_conflict(name, type, arg)\<close>: \<open>arg\<close> is the interface the callback was
  registered for; \<open>reload\<close> is the global flag. Returns the interface and the flag.\<close>

definition mdnsd_conflict :: "string \<Rightarrow> int \<Rightarrow> iface \<Rightarrow> int \<Rightarrow> event list \<times> iface \<times> int" where
  "mdnsd_conflict name type arg rl =
     ([Ev_log WARN ''%s: conlicting name detected %s for type %d, reloading config ...''],
      if rl = 0 then (arg\<lparr>hostid := int_wrap (hostid arg + 1)\<rparr>, 1) else (arg, rl))"

definition done_handler :: "state \<Rightarrow> state" where
  "done_handler s = s\<lparr>running := 0\<rparr>"

definition reconf :: "state \<Rightarrow> state" where
  "reconf s = s\<lparr>reload := 1\<rparr>"

text \<open>The handlers \<^verbatim>\<open>sig_init\<close> installs.\<close>

fun deliver :: "signal \<Rightarrow> state \<Rightarrow> state" where
  "deliver SIGINT s = done_handler s"
| "deliver SIGHUP s = reconf s"
| "deliver SIGQUIT s = done_handler s"
| "deliver SIGTERM s = done_handler s"

subsection \<open>Interfaces and their sockets\<close>

definition free_iface :: "iface \<Rightarrow> event list" where
  "free_iface i =
     [Ev_mdnsd_shutdown (mdns i), Ev_mdnsd_free (mdns i)] @
     (if sd i \<ge> 0 then [Ev_close (sd i)] else [])"

text \<open>\<^verbatim>\<open>multicast_socket(iface, ttl)\<close>, as built with
  \<^verbatim>\<open>HAVE_STRUCT_IP_MREQN_IMR_IFINDEX\<close> (the other branch names an undeclared
  variable). The result is the descriptor, or \<open>-1\<close>.\<close>

definition multicast_socket :: "build \<Rightarrow> sock_env \<Rightarrow> iface \<Rightarrow> nat \<Rightarrow> event list \<times> int" where
  "multicast_socket b env i ttl_arg =
     (let fd = socket_ret env in
      if fd < 0 then ([Ev_socket fd, Ev_log ERR ''Failed creating UDP socket: %s''], - 1)
      else
        let pre =
          [Ev_socket fd] @
          (if have_so_reuseport b
           then setsockopt_or_log env fd SO_REUSEPORT (V_int 1) WARN ''Failed setting SO_REUSEPORT: %s''
           else []) @
          setsockopt_or_log env fd SO_REUSEADDR (V_int 1) WARN ''Failed setting SO_REUSEADDR: %s'' @
          [Ev_getsockopt fd SO_RCVBUF] @
          (if getsockopt_ret env = 0
           then setsockopt_or_log env fd SO_RCVBUF (V_int (rcvbuf env)) INFO
                  ''Failed doubling the size of the receive buffer: %s''
           else []) @
          setsockopt_or_log env fd IP_PKTINFO (V_int 1) WARN ''Failed setting %s IP_PKTINFO: %s'' @
          setsockopt_or_log env fd IP_MULTICAST_IF (V_mreqn False (ifindex i)) WARN
            ''Failed setting IP_MULTICAST_IF %d: %s'' @
          setsockopt_or_log env fd IP_MULTICAST_LOOP (V_uchar 1) WARN
            ''Failed disabling IP_MULTICAST_LOOP on %s: %s'' @
          setsockopt_or_log env fd IP_MULTICAST_ALL (V_int 0) WARN
            ''Failed disabling IP_MULTICAST_LOOP on %s: %s'' @
          setsockopt_or_log env fd IP_MULTICAST_TTL (V_uchar ttl_arg) WARN
            ''Failed setting IP_MULTICAST_TTL to %d: %s'' @
          setsockopt_or_log env fd IP_TTL (V_int 255) WARN ''Failed setting IP_TTL to %d: %s'' @
          setsockopt_or_log env fd SO_BINDTODEVICE (V_name (ifname i)) WARN
            ''Failed setting SO_BINDTODEVICE: %s'' @
          [Ev_bind fd 5353 (bind_ret env)]
        in
        if bind_ret env \<noteq> 0 then (pre @ [Ev_close fd], - 1)
        else
          (pre @ [Ev_log INFO ''Bound to *:5353 on iface %s''] @
           setsockopt_or_log env fd IP_ADD_MEMBERSHIP (V_mreqn True (ifindex i)) WARN
             ''Failed joining mDMS group 224.0.0.251: %s'',
           fd))"

text \<open>What one call of \<^verbatim>\<open>setup_iface\<close> gets from \<^verbatim>\<open>mdnsd_new\<close> and from the
  socket layer.\<close>

record setup_env =
  mdnsd_new_ret :: "daemon option"
  sock :: sock_env

text \<open>\<^verbatim>\<open>setup_iface\<close> returns the interface as it leaves it, or the code it passes to
  \<^verbatim>\<open>exit\<close> (\<open>Inl\<close>). It reads the globals \<open>ttl\<close> and \<open>path\<close>.\<close>

definition setup_iface :: "build \<Rightarrow> state \<Rightarrow> setup_env \<Rightarrow> iface \<Rightarrow> event list \<times> (int + iface)" where
  "setup_iface b s env i =
     (if changed i = 0 then ([], Inr i)
      else if unused i \<noteq> 0 then (free_iface i, Inr i)
      else
        case (if mdns i = None
              then (case mdnsd_new_ret env of
                      None \<Rightarrow>
                        ([Ev_mdnsd_new None,
                          Ev_log ERR ''Failed creating mDNS context for iface %s: %s''], Inl 1)
                    | Some d \<Rightarrow>
                        ([Ev_mdnsd_new (Some d), Ev_conf_init (ifname i),
                          Ev_register_receive_callback],
                         Inr (i\<lparr>mdns := Some d\<rparr>)))
              else ([], Inr i)) of
          (tr1, Inl c) \<Rightarrow> (tr1, Inl c)
        | (tr1, Inr i1) \<Rightarrow>
            (case (if sd i1 < 0
                   then (case multicast_socket b (sock env) i1 (uchar (ttl s)) of
                           (tr, fd) \<Rightarrow>
                             if fd < 0 then (tr @ [Ev_log ERR ''Failed creating socket: %s''], Inl 1)
                             else (tr, Inr (i1\<lparr>sd := fd\<rparr>)))
                   else ([], Inr i1)) of
               (tr2, Inl c) \<Rightarrow> (tr1 @ tr2, Inl c)
             | (tr2, Inr i2) \<Rightarrow>
                 (tr1 @ tr2 @ [Ev_mdnsd_set_address (mdns i2)], Inr (i2\<lparr>changed := 0\<rparr>))))"

text \<open>The loop of \<^verbatim>\<open>sys_init\<close> over the interface list; \<open>k\<close> is the position of the
  interface, by which its environment is looked up.\<close>

fun setup_all ::
  "build \<Rightarrow> state \<Rightarrow> (nat \<Rightarrow> setup_env) \<Rightarrow> nat \<Rightarrow> iface list \<Rightarrow> event list \<times> (int + iface list)" where
  "setup_all b s env k [] = ([], Inr [])"
| "setup_all b s env k (i # rest) =
     (case setup_iface b s (env k) i of
        (tr, Inl c) \<Rightarrow> (tr, Inl c)
      | (tr, Inr i') \<Rightarrow>
          (case setup_all b s env (Suc k) rest of
             (tr', Inl c) \<Rightarrow> (tr @ tr', Inl c)
           | (tr', Inr rest') \<Rightarrow> (tr @ tr', Inr (i' # rest'))))"

text \<open>\<^verbatim>\<open>iface_init\<close> (in \<^verbatim>\<open>iface.c\<close>) rescans the system's interfaces: it is a
  parameter that maps the interface list to the rescanned one.\<close>

record sys_env =
  iface_init :: "iface list \<Rightarrow> iface list"
  setup_at :: "nat \<Rightarrow> setup_env"

definition sys_init :: "build \<Rightarrow> sys_env \<Rightarrow> state \<Rightarrow> event list \<times> (int + state)" where
  "sys_init b env s =
     (case setup_all b s (setup_at env) 0 (iface_init env (ifaces s)) of
        (tr, Inl c) \<Rightarrow> (Ev_iface_init # tr, Inl c)
      | (tr, Inr is) \<Rightarrow> (Ev_iface_init # tr, Inr (s\<lparr>ifaces := is\<rparr>)))"

text \<open>\<^verbatim>\<open>sys_timeout(&timeout)\<close>; \<open>now\<close> is the second count \<^verbatim>\<open>clock_gettime\<close>
  reports.\<close>

definition sys_timeout :: "int \<Rightarrow> state \<Rightarrow> int \<times> state" where
  "sys_timeout now s =
     (if timeout s = 0 then (0, s\<lparr>before := now, timeout := SYS_INTERVAL\<rparr>)
      else if before s + SYS_INTERVAL \<le> now then (1, s\<lparr>before := now\<rparr>)
      else (0, s))"

definition sig_init :: "event list" where
  "sig_init = [Ev_signal SIGINT, Ev_signal SIGHUP, Ev_signal SIGQUIT, Ev_signal SIGTERM]"

subsection \<open>The main loop\<close>

text \<open>What \<^verbatim>\<open>mdnsd_step\<close> does on one interface: the conflict callbacks it fires (name
  and type of each), its return code, the deadline it stores in \<open>next\<close>, and the
  \<^verbatim>\<open>FD_ISSET\<close> bit it is called with. The argument of a callback is taken to be the
  interface whose engine context is stepped.\<close>

record step_env =
  conflicts :: "(string \<times> int) list"
  step_rc :: int
  step_next :: timeval
  fd_isset :: bool

fun fire_conflicts :: "(string \<times> int) list \<Rightarrow> iface \<Rightarrow> int \<Rightarrow> event list \<times> iface \<times> int" where
  "fire_conflicts [] i rl = ([], i, rl)"
| "fire_conflicts ((name, type) # cs) i rl =
     (case mdnsd_conflict name type i rl of
        (tr, i', rl') \<Rightarrow>
          (case fire_conflicts cs i' rl' of (tr', i'', rl'') \<Rightarrow> (tr @ tr', i'', rl'')))"

text \<open>The \<^verbatim>\<open>for\<close> loop of lines 439--459 over the interfaces: \<open>t\<close> is \<open>tv\<close>, \<open>rl\<close> the
  \<open>reload\<close> flag.\<close>

fun step_ifaces ::
  "(nat \<Rightarrow> step_env) \<Rightarrow> nat \<Rightarrow> iface list \<Rightarrow> timeval \<Rightarrow> int
     \<Rightarrow> event list \<times> iface list \<times> timeval \<times> int" where
  "step_ifaces env k [] t rl = ([], [], t, rl)"
| "step_ifaces env k (i # rest) t rl =
     (if unused i \<noteq> 0 \<or> sd i < 0 then
        (case step_ifaces env (Suc k) rest t rl of
           (tr, rest', t', rl') \<Rightarrow>
             (Ev_log DBG ''Checking iface %s for activity ...'' # tr, i # rest', t', rl'))
      else
        (case fire_conflicts (conflicts (env k)) i rl of
           (trc, i1, rl1) \<Rightarrow>
             (let rc = step_rc (env k);
                  nxt = step_next (env k);
                  t1 = (if rc = 0 then (if tv_sec t > tv_sec nxt then nxt else t) else t);
                  trs =
                    [Ev_log DBG ''Checking iface %s for activity ...'',
                     Ev_mdnsd_step (mdns i) (sd i) (fd_isset (env k))] @ trc @
                    (if rc = 0 then []
                     else
                       (if rc = 1 then [Ev_log ERR ''Failed reading from socket %d: %s''] else []) @
                       (if rc = 2 then [Ev_log ERR ''Failed writing to socket: %s''] else []) @
                       free_iface i1)
              in case step_ifaces env (Suc k) rest t1 rl1 of
                   (tr, rest', t', rl') \<Rightarrow> (trs @ tr, i1 # rest', t', rl'))))"

text \<open>The environment of one pass of the \<^verbatim>\<open>while (running)\<close> loop: the signals
  delivered in the pass, what \<^verbatim>\<open>select\<close> returns and leaves in \<open>tv\<close>, the clock, and
  the environments of \<^verbatim>\<open>sys_init\<close> and of \<^verbatim>\<open>mdnsd_step\<close> per interface position.
  The handlers of a pass run while the process is in \<^verbatim>\<open>select\<close>, where the daemon
  spends its time; \<^verbatim>\<open>select\<close> may change \<open>tv\<close> as it likes (Linux stores the time
  left).\<close>

record pass_env =
  signals :: "signal list"
  select_rc :: int
  select_errno :: int
  select_tv :: timeval
  clock :: int
  sysenv :: sys_env
  step :: "nat \<Rightarrow> step_env"

datatype 'a ctl = Exit int | Break 'a | Continue 'a

text \<open>\<^verbatim>\<open>nfds\<close> of lines 402--415.\<close>

definition select_nfds :: "iface list \<Rightarrow> int" where
  "select_nfds is =
     (let n = foldl (\<lambda>n i. if sd i < 0 \<or> unused i \<noteq> 0 then n
                            else if sd i > n then sd i else n) 0 is
      in if n > 0 then n + 1 else n)"

definition reload_config :: "iface list \<Rightarrow> event list" where
  "reload_config is =
     concat (map (\<lambda>i. [Ev_records_clear (mdns i), Ev_conf_init (ifname i)]) is)"

text \<open>The state when \<^verbatim>\<open>select\<close> has returned: the handlers of the signals delivered
  meanwhile have run, and \<open>tv\<close> holds what \<^verbatim>\<open>select\<close> left in it.\<close>

definition after_select :: "pass_env \<Rightarrow> state \<Rightarrow> state" where
  "after_select e s = (foldl (\<lambda>s g. deliver g s) s (signals e))\<lparr>tv := select_tv e\<rparr>"

text \<open>One pass of the loop body, lines 402--459.\<close>

definition loop_pass :: "build \<Rightarrow> pass_env \<Rightarrow> state \<Rightarrow> event list \<times> state ctl" where
  "loop_pass b e s =
     (let tr_sel = [Ev_log DBG ''Going to sleep for %d sec ...'',
                    Ev_select (select_nfds (ifaces s)) (tv s)];
          s1 = after_select e s
      in
      if (select_rc e < 0 \<and> select_errno e = EINTR) \<or> reload s1 \<noteq> 0 then
        if running s1 = 0 then (tr_sel, Break s1)
        else if reload s1 \<noteq> 0 then
          (case sys_init b (sysenv e) s1 of
             (tr, Inl c) \<Rightarrow> (tr_sel @ tr, Exit c)
           | (tr, Inr s2) \<Rightarrow>
               (tr_sel @ tr @ reload_config (ifaces s2) @ [Ev_pidfile],
                Continue (s2\<lparr>reload := 0\<rparr>)))
        else (tr_sel, Continue s1)
      else
        (case sys_timeout (clock e) s1 of
           (r, s2) \<Rightarrow>
             (case (if r \<noteq> 0 then sys_init b (sysenv e) s2 else ([], Inr s2)) of
                (tr, Inl c) \<Rightarrow> (tr_sel @ tr, Exit c)
              | (tr, Inr s3) \<Rightarrow>
                  (let s4 = s3\<lparr>tv := (tv s3)\<lparr>tv_sec := timeout s3\<rparr>\<rparr> in
                   case step_ifaces (step e) 0 (ifaces s4) (tv s4) (reload s4) of
                     (tr', is', t', rl') \<Rightarrow>
                       (tr_sel @ tr @ tr',
                        Continue (s4\<lparr>ifaces := is', tv := t', reload := rl'\<rparr>))))))"

text \<open>Lines 462--467, after the loop.\<close>

definition finish :: "state \<Rightarrow> event list \<times> int option" where
  "finish s =
     ([Ev_log NOTE ''%s exiting.''] @ concat (map free_iface (ifaces s)) @ [Ev_iface_exit],
      Some 0)"

text \<open>The \<^verbatim>\<open>while (running)\<close> loop, run on the environments of finitely many passes.
  It ends with \<open>Exit\<close> when a pass leaves the process, with \<open>Break\<close> when the loop is
  left (the condition fails, or line 421 breaks), and with \<open>Continue\<close> when it is still
  running after the last of the passes.\<close>

fun run_passes :: "build \<Rightarrow> pass_env list \<Rightarrow> state \<Rightarrow> event list \<times> state ctl" where
  "run_passes b [] s = ([], if running s = 0 then Break s else Continue s)"
| "run_passes b (e # es) s =
     (if running s = 0 then ([], Break s)
      else
        (case loop_pass b e s of
           (tr, Continue s') \<Rightarrow> (case run_passes b es s' of (tr', r) \<Rightarrow> (tr @ tr', r))
         | (tr, r) \<Rightarrow> (tr, r)))"

text \<open>The loop and what follows it. The result is the exit code of the process, or
  \<open>None\<close> while the loop is still running.\<close>

definition main_loop :: "build \<Rightarrow> pass_env list \<Rightarrow> state \<Rightarrow> event list \<times> int option" where
  "main_loop b es s =
     (case run_passes b es s of
        (tr, Exit c) \<Rightarrow> (tr, Some c)
      | (tr, Break s') \<Rightarrow> (case finish s' of (tr', r) \<Rightarrow> (tr @ tr', r))
      | (tr, Continue s') \<Rightarrow> (tr, None))"

subsection \<open>Command line and start-up\<close>

text \<open>The command line as \<^verbatim>\<open>getopt\<close> reports it: the option characters with their
  arguments, in order (\<open>?\<close> for an option it does not know), and the operands left at
  \<^verbatim>\<open>optind\<close>.\<close>

record cmdline =
  opts :: "(char \<times> string) list"
  operands :: "string list"

record start_env =
  atoi :: "string \<Rightarrow> int"
  mdnsd_log_level_ret :: "string \<Rightarrow> int"
  daemon_ret :: int
  init_sys :: sys_env

definition usage :: "int \<Rightarrow> event list \<times> (int + state)" where
  "usage code =
     ([Ev_printf ''Usage: %s [-hnsv] [-i IFACE] [-l LEVEL] [-t TTL] [PATH]''], Inl code)"

text \<open>The \<^verbatim>\<open>getopt\<close> loop of \<^verbatim>\<open>main\<close>, lines 340--378.\<close>

fun parse_opts :: "start_env \<Rightarrow> (char \<times> string) list \<Rightarrow> state \<Rightarrow> event list \<times> (int + state)" where
  "parse_opts env [] s = ([], Inr s)"
| "parse_opts env ((c, optarg) # rest) s =
     (case
        (if c = CHR ''h'' \<or> c = CHR ''?'' then usage 0
         else if c = CHR ''i'' then parse_opts env rest (s\<lparr>ifname_arg := Some optarg\<rparr>)
         else if c = CHR ''l'' then
           (case (if mdnsd_log_level_ret env optarg = - 1 then usage 1
                  else parse_opts env rest s) of
              (tr, r) \<Rightarrow> (Ev_log_level optarg (mdnsd_log_level_ret env optarg) # tr, r))
         else if c = CHR ''n'' then
           parse_opts env rest (s\<lparr>background := 0, logging := logging s - 1\<rparr>)
         else if c = CHR ''s'' then parse_opts env rest (s\<lparr>logging := logging s + 1\<rparr>)
         else if c = CHR ''t'' then
           (case (if atoi env optarg < 1 \<or> atoi env optarg > 255 then usage 1
                  else parse_opts env rest (s\<lparr>ttl := atoi env optarg\<rparr>)) of
              (tr, r) \<Rightarrow> (Ev_atoi optarg (atoi env optarg) # tr, r))
         else if c = CHR ''v'' then ([Ev_puts ''PACKAGE_VERSION''], Inl 0)
         else parse_opts env rest s) of
        (tr, r) \<Rightarrow> (Ev_getopt c optarg # tr, r))"

text \<open>\<^verbatim>\<open>main\<close> of \<^verbatim>\<open>mdnsd.c\<close>.\<close>

definition mdnsd_main ::
  "build \<Rightarrow> start_env \<Rightarrow> cmdline \<Rightarrow> pass_env list \<Rightarrow> event list \<times> int option" where
  "mdnsd_main b env cl passes =
     (case parse_opts env (opts cl) init_state of
        (tr0, Inl c) \<Rightarrow> (tr0, Some c)
      | (tr0, Inr s0) \<Rightarrow>
          (let s1 = s0\<lparr>path := (case operands cl of p # _ \<Rightarrow> p | [] \<Rightarrow> ''/etc/mdns.d'')\<rparr>;
               tr1 = tr0 @ (if logging s1 > 0 then [Ev_log_open] else [])
           in
           if background s1 \<noteq> 0 \<and> daemon_ret env = - 1 then
             (tr1 @ [Ev_log DBG ''Daemonizing ...'', Ev_daemon (daemon_ret env),
                     Ev_log ERR ''Failed daemonizing: %s''], Some 1)
           else
             (let tr2 = tr1 @
                    (if background s1 \<noteq> 0
                     then [Ev_log DBG ''Daemonizing ...'', Ev_daemon (daemon_ret env)]
                     else []) @
                    [Ev_log NOTE ''%s starting.''] @ sig_init
              in
              case sys_init b (init_sys env) s1 of
                (tr3, Inl c) \<Rightarrow> (tr2 @ tr3, Some c)
              | (tr3, Inr s2) \<Rightarrow>
                  (case main_loop b passes s2 of
                     (tr4, r) \<Rightarrow> (tr2 @ tr3 @ [Ev_pidfile] @ tr4, r)))))"

section \<open>mquery.c: the query tool\<close>

subsection \<open>The socket\<close>

text \<open>\<^verbatim>\<open>msock(ifname)\<close>; \<open>None\<close> is a \<^verbatim>\<open>NULL\<close> interface name. The \<open>fallback\<close>
  label is reached when the build has no \<^verbatim>\<open>struct ip_mreqn\<close>, when no interface is
  named, and when \<^verbatim>\<open>if_nametoindex\<close> returns 0.\<close>

definition msock :: "build \<Rightarrow> sock_env \<Rightarrow> string option \<Rightarrow> event list \<times> int" where
  "msock b env ifn =
     (let fd = socket_ret env in
      if fd < 0 then ([Ev_socket fd], 0)
      else
        let head =
              [Ev_socket fd] @
              (if have_so_reuseport b
               then setsockopt_or_log env fd SO_REUSEPORT (V_int 1) WARN
                      ''Failed setting SO_REUSEPORT: %s''
               else []) @
              setsockopt_or_log env fd SO_REUSEADDR (V_int 1) WARN
                ''Failed setting SO_REUSEADDR: %s'';
            fallback = ([], V_mreq_any);
            pick =
              (if have_ip_mreqn b then
                 (case ifn of
                    None \<Rightarrow> fallback
                  | Some n \<Rightarrow>
                      if if_nametoindex_ret env = 0 then ([Ev_if_nametoindex n], V_mreq_any)
                      else
                        ([Ev_if_nametoindex n] @
                         setsockopt_or_log env fd IP_MULTICAST_IF
                           (V_mreqn True (if_nametoindex_ret env)) WARN
                           ''Failed setting IP_MULTICAST_IF %d: %s'' @
                         setsockopt_or_log env fd SO_BINDTODEVICE (V_name n) WARN
                           ''Failed setting SO_BINDTODEVICE: %s'',
                         V_mreqn True (if_nametoindex_ret env)))
               else fallback);
            pre = head @ fst pick @
              setsockopt_or_log env fd IP_ADD_MEMBERSHIP (snd pick) WARN
                ''Failed joining mDMS group 224.0.0.251: %s'' @
              [Ev_bind fd 5353 (bind_ret env)]
        in
        if bind_ret env \<noteq> 0 then (pre @ [Ev_close fd], 0) else (pre, fd))"

subsection \<open>The event loop\<close>

text \<open>One return of \<^verbatim>\<open>recvfrom\<close>: the byte count, \<^verbatim>\<open>errno\<close>, and the buffer.\<close>

record recv_ret =
  bsize :: int
  recv_errno :: int
  buf :: packet

text \<open>The \<^verbatim>\<open>while ((bsize = recvfrom(...)) > 0)\<close> loop of lines 327--331, on the
  returns of \<^verbatim>\<open>recvfrom\<close> in order. The socket is non-blocking: once the listed returns
  are used up, \<^verbatim>\<open>recvfrom\<close> returns \<open>-1\<close> with \<^verbatim>\<open>EAGAIN\<close>. \<open>parse\<close> is the
  return value of \<^verbatim>\<open>message_parse\<close> on a buffer. The result carries the last
  \<open>bsize\<close> and \<^verbatim>\<open>errno\<close>.\<close>

fun recv_loop :: "(packet \<Rightarrow> int) \<Rightarrow> recv_ret list \<Rightarrow> event list \<times> int \<times> int" where
  "recv_loop parse [] = ([Ev_recvfrom (- 1) EAGAIN], - 1, EAGAIN)"
| "recv_loop parse (r # rs) =
     (if bsize r > 0 then
        (case recv_loop parse rs of
           (tr, b, en) \<Rightarrow>
             ([Ev_recvfrom (bsize r) (recv_errno r),
               Ev_message_parse (buf r) (parse (buf r))] @
              (if parse (buf r) = 0 then [Ev_mdnsd_in (buf r)] else []) @ tr, b, en))
      else ([Ev_recvfrom (bsize r) (recv_errno r)], bsize r, recv_errno r))"

text \<open>One message \<^verbatim>\<open>mdnsd_out\<close> hands over (the bytes \<^verbatim>\<open>message_packet\<close> gives for
  it), and what \<^verbatim>\<open>sendto\<close> returns for it.\<close>

record out_ret =
  out_packet :: packet
  sendto_ret :: int

text \<open>The \<^verbatim>\<open>while (mdnsd_out(...))\<close> loop of lines 338--349, on the messages the engine
  has queued; after the last of them \<^verbatim>\<open>mdnsd_out\<close> returns 0. The flag tells whether
  a \<^verbatim>\<open>sendto\<close> failed.\<close>

fun out_loop :: "out_ret list \<Rightarrow> event list \<times> bool" where
  "out_loop [] = ([Ev_mdnsd_out False], False)"
| "out_loop (m # ms) =
     (if sendto_ret m \<noteq> int (length (out_packet m))
      then ([Ev_mdnsd_out True, Ev_sendto (out_packet m) (sendto_ret m),
             Ev_printf ''Failed writing to socket: %s''], True)
      else (case out_loop ms of
              (tr, failed) \<Rightarrow>
                (Ev_mdnsd_out True # Ev_sendto (out_packet m) (sendto_ret m) # tr, failed)))"

record iter_env =
  sleep_tv :: timeval
  readable :: bool
  recvs :: "recv_ret list"
  outs :: "out_ret list"
  now :: int

text \<open>One pass of the \<^verbatim>\<open>while (1)\<close> loop, lines 319--352: \<open>fd\<close> is the socket,
  \<open>w\<close> is \<open>wait\<close> and \<open>t0\<close> is \<open>start\<close>.\<close>

definition mquery_pass ::
  "(packet \<Rightarrow> int) \<Rightarrow> int \<Rightarrow> int \<Rightarrow> int \<Rightarrow> iter_env \<Rightarrow> event list \<times> unit ctl" where
  "mquery_pass parse fd w t0 e =
     (let tr0 = [Ev_mdnsd_sleep (sleep_tv e), Ev_select (fd + 1) (sleep_tv e)];
          rd = (if readable e then recv_loop parse (recvs e) else ([], 0, 0))
      in
      case rd of
        (trr, b, en) \<Rightarrow>
          if readable e \<and> b < 0 \<and> en \<noteq> EAGAIN
          then (tr0 @ trr @ [Ev_printf ''Failed reading from socket %d: %s''], Exit 1)
          else
            (case out_loop (outs e) of
               (tro, failed) \<Rightarrow>
                 if failed then (tr0 @ trr @ tro, Exit 1)
                 else if w \<noteq> 0 then
                   (tr0 @ trr @ tro @ [Ev_time (now e)],
                    if now e - t0 \<ge> w then Break () else Continue ())
                 else (tr0 @ trr @ tro, Continue ())))"

text \<open>The loop on the environments of finitely many passes, and lines 355--358 after it;
  \<open>None\<close> when the loop is still running after the last pass.\<close>

fun mquery_loop ::
  "(packet \<Rightarrow> int) \<Rightarrow> daemon \<Rightarrow> int \<Rightarrow> int \<Rightarrow> int \<Rightarrow> iter_env list \<Rightarrow> event list \<times> int option" where
  "mquery_loop parse d fd w t0 [] = ([], None)"
| "mquery_loop parse d fd w t0 (e # es) =
     (case mquery_pass parse fd w t0 e of
        (tr, Exit c) \<Rightarrow> (tr, Some c)
      | (tr, Break u) \<Rightarrow> (tr @ [Ev_mdnsd_shutdown (Some d), Ev_mdnsd_free (Some d)], Some 0)
      | (tr, Continue u) \<Rightarrow>
          (case mquery_loop parse d fd w t0 es of (tr', r) \<Rightarrow> (tr @ tr', r)))"

subsection \<open>Command line and start-up\<close>

text \<open>The locals of \<^verbatim>\<open>main\<close> the options set, and the global \<open>simple\<close>.\<close>

record mq_state =
  mq_ifname :: "string option"
  simple :: int
  qtype :: int
  wait :: int

definition mq_init :: mq_state where
  "mq_init = \<lparr> mq_ifname = None, simple = 0, qtype = 12, wait = 0 \<rparr>"

text \<open>\<open>DISCO_NAME\<close> is a macro of \<^verbatim>\<open>mdnsd.h\<close>, \<open>getifname_ret\<close> is what
  \<^verbatim>\<open>getifname\<close> finds in the routing table.\<close>

record mq_env =
  mq_atoi :: "string \<Rightarrow> int"
  DISCO_NAME :: string
  getifname_ret :: "string option"
  mq_sock :: sock_env
  mq_new_ret :: "daemon option"
  start_time :: int
  message_parse_ret :: "packet \<Rightarrow> int"

definition mq_usage :: "int \<Rightarrow> event list \<times> (int + mq_state)" where
  "mq_usage code =
     ([Ev_printf ''usage: mquery [-hsv] [-i IFNAME] [-t TYPE] [-w SEC] [NAME]''], Inl code)"

fun mq_parse_opts :: "mq_env \<Rightarrow> (char \<times> string) list \<Rightarrow> mq_state \<Rightarrow> event list \<times> (int + mq_state)" where
  "mq_parse_opts env [] s = ([], Inr s)"
| "mq_parse_opts env ((c, optarg) # rest) s =
     (case
        (if c = CHR ''h'' \<or> c = CHR ''?'' then mq_usage 0
         else if c = CHR ''i'' then mq_parse_opts env rest (s\<lparr>mq_ifname := Some optarg\<rparr>)
         else if c = CHR ''s'' then mq_parse_opts env rest (s\<lparr>simple := 1\<rparr>)
         else if c = CHR ''t'' then
           (case mq_parse_opts env rest (s\<lparr>qtype := mq_atoi env optarg\<rparr>) of
              (tr, r) \<Rightarrow> (Ev_atoi optarg (mq_atoi env optarg) # tr, r))
         else if c = CHR ''v'' then ([Ev_puts ''PACKAGE_VERSION''], Inl 0)
         else if c = CHR ''w'' then
           (case mq_parse_opts env rest (s\<lparr>wait := mq_atoi env optarg\<rparr>) of
              (tr, r) \<Rightarrow> (Ev_atoi optarg (mq_atoi env optarg) # tr, r))
         else mq_usage 1) of
        (tr, r) \<Rightarrow> (Ev_getopt c optarg # tr, r))"

text \<open>\<^verbatim>\<open>main\<close> of \<^verbatim>\<open>mquery.c\<close>.\<close>

definition mquery_main ::
  "build \<Rightarrow> mq_env \<Rightarrow> cmdline \<Rightarrow> iter_env list \<Rightarrow> event list \<times> int option" where
  "mquery_main b env cl passes =
     (case mq_parse_opts env (opts cl) mq_init of
        (tr0, Inl c) \<Rightarrow> (tr0, Some c)
      | (tr0, Inr s) \<Rightarrow>
          (let qname = (case operands cl of n # _ \<Rightarrow> n | [] \<Rightarrow> DISCO_NAME env);
               ifn = (case mq_ifname s of None \<Rightarrow> getifname_ret env | Some n \<Rightarrow> Some n)
           in
           case msock b (mq_sock env) ifn of
             (tr1, fd) \<Rightarrow>
               if fd = - 1
               then (tr0 @ tr1 @ [Ev_printf ''Failed creating multicast socket: %s''], Some 1)
               else
                 (case mq_new_ret env of
                    None \<Rightarrow> (tr0 @ tr1 @ [Ev_mdnsd_new None], Some 1)
                  | Some d \<Rightarrow>
                      (case mquery_loop (message_parse_ret env) d fd (wait s) (start_time env)
                              passes of
                         (tr2, r) \<Rightarrow>
                           (tr0 @ tr1 @
                            [Ev_mdnsd_new (Some d),
                             Ev_printf ''Querying for %s type %d ... press Ctrl-C to stop'',
                             Ev_time (start_time env),
                             Ev_mdnsd_query qname (qtype s)] @ tr2, r)))))"

section \<open>Reading traces\<close>

text \<open>The packets handed to \<^verbatim>\<open>mdnsd_in\<close>, the return values of \<^verbatim>\<open>recvfrom\<close> and
  the timeouts passed to \<^verbatim>\<open>select\<close>, each in trace order.\<close>

fun mdnsd_in_packets :: "event list \<Rightarrow> packet list" where
  "mdnsd_in_packets [] = []"
| "mdnsd_in_packets (Ev_mdnsd_in p # es) = p # mdnsd_in_packets es"
| "mdnsd_in_packets (e # es) = mdnsd_in_packets es"

fun recvfrom_rets :: "event list \<Rightarrow> int list" where
  "recvfrom_rets [] = []"
| "recvfrom_rets (Ev_recvfrom n en # es) = n # recvfrom_rets es"
| "recvfrom_rets (e # es) = recvfrom_rets es"

fun select_timeouts :: "event list \<Rightarrow> timeval list" where
  "select_timeouts [] = []"
| "select_timeouts (Ev_select n t # es) = t # select_timeouts es"
| "select_timeouts (e # es) = select_timeouts es"

text \<open>The length of a timeout in microseconds.\<close>

definition usecs :: "timeval \<Rightarrow> int" where
  "usecs t = tv_sec t * 1000000 + tv_usec t"

text \<open>\<open>drained_before_free pending tr\<close>: no context is freed and no socket is closed in
  \<open>tr\<close> while a shutdown is pending. A shutdown is pending from the call of
  \<^verbatim>\<open>mdnsd_shutdown\<close> until \<^verbatim>\<open>mdnsd_out\<close> has returned 0.\<close>

fun drained_before_free :: "bool \<Rightarrow> event list \<Rightarrow> bool" where
  "drained_before_free pending [] = True"
| "drained_before_free pending (Ev_mdnsd_shutdown d # es) = drained_before_free True es"
| "drained_before_free pending (Ev_mdnsd_out m # es) = drained_before_free (pending \<and> m) es"
| "drained_before_free pending (Ev_mdnsd_free d # es) =
     (\<not> pending \<and> drained_before_free pending es)"
| "drained_before_free pending (Ev_close fd # es) =
     (\<not> pending \<and> drained_before_free pending es)"
| "drained_before_free pending (e # es) = drained_before_free pending es"

text \<open>\<open>immediate_free tr\<close>: every call of \<^verbatim>\<open>mdnsd_shutdown\<close> in \<open>tr\<close> is followed at
  once by \<^verbatim>\<open>mdnsd_free\<close> of the same context.\<close>

fun immediate_free :: "event list \<Rightarrow> bool" where
  "immediate_free [] = True"
| "immediate_free [Ev_mdnsd_shutdown d] = False"
| "immediate_free (Ev_mdnsd_shutdown d # e # es) = (e = Ev_mdnsd_free d \<and> immediate_free es)"
| "immediate_free (e # es) = immediate_free es"

text \<open>\<open>sleeps_drained clean prev tr\<close>: every \<^verbatim>\<open>select\<close> in \<open>tr\<close> comes right after
  \<^verbatim>\<open>mdnsd_sleep\<close>, takes the timeout that call returned, and is reached in a clean
  state: since the \<^verbatim>\<open>select\<close> before it, and since anything was read from the socket
  or fed to \<^verbatim>\<open>mdnsd_in\<close>, \<^verbatim>\<open>mdnsd_out\<close> has been called and has returned 0.
  \<open>prev\<close> is what \<^verbatim>\<open>mdnsd_sleep\<close> returned when it is the event just before.\<close>

fun sleeps_drained :: "bool \<Rightarrow> timeval option \<Rightarrow> event list \<Rightarrow> bool" where
  "sleeps_drained clean prev [] = True"
| "sleeps_drained clean prev (Ev_mdnsd_sleep t # es) = sleeps_drained clean (Some t) es"
| "sleeps_drained clean prev (Ev_select n t # es) =
     (clean \<and> prev = Some t \<and> sleeps_drained False None es)"
| "sleeps_drained clean prev (Ev_recvfrom n en # es) = sleeps_drained False None es"
| "sleeps_drained clean prev (Ev_mdnsd_in p # es) = sleeps_drained False None es"
| "sleeps_drained clean prev (Ev_mdnsd_out m # es) = sleeps_drained (\<not> m) None es"
| "sleeps_drained clean prev (e # es) = sleeps_drained clean None es"




section \<open>Reading exits and flags\<close>












text \<open>\<open>ends_like ps tr\<close>: the last events of the trace \<open>tr\<close> pass the tests \<open>ps\<close>, one
  each, in order.\<close>

definition ends_like :: "(event \<Rightarrow> bool) list \<Rightarrow> event list \<Rightarrow> bool" where
  "ends_like ps tr =
     (length ps \<le> length tr \<and> list_all2 (\<lambda>p e. p e) ps (drop (length tr - length ps) tr))"













text \<open>What \<^verbatim>\<open>main\<close> of \<^verbatim>\<open>mquery.c\<close> prints on line 306.\<close>

definition socket_failure_msg :: event where
  "socket_failure_msg = Ev_printf ''Failed creating multicast socket: %s''"


text \<open>1 while no reload is pending, 0 while one is.\<close>

definition no_reload :: "int \<Rightarrow> int" where
  "no_reload rl = (if rl = 0 then 1 else 0)"

text \<open>\<open>bumped_once n h rl0 rl i\<close>: if the interface \<open>i\<close> is named \<open>n\<close>, its host id is
  \<open>h\<close>, or it is the successor of \<open>h\<close> while a reload is pending (\<open>rl\<close>) that was not
  pending at the start (\<open>rl0\<close>).\<close>

definition bumped_once :: "string \<Rightarrow> int \<Rightarrow> int \<Rightarrow> int \<Rightarrow> iface \<Rightarrow> bool" where
  "bumped_once n h rl0 rl i =
     (ifname i = n \<longrightarrow> hostid i = h \<or> (hostid i = int_wrap (h + 1) \<and> rl0 = 0 \<and> rl \<noteq> 0))"

text \<open>The calls that drain the queue \<open>ms\<close> of the engine: \<^verbatim>\<open>mdnsd_out\<close> hands a message
  over and \<^verbatim>\<open>sendto\<close> sends it, for each message in turn, and then \<^verbatim>\<open>mdnsd_out\<close>
  returns 0.\<close>

definition drain_events :: "out_ret list \<Rightarrow> event list" where
  "drain_events ms =
     concat (map (\<lambda>m. [Ev_mdnsd_out True, Ev_sendto (out_packet m) (sendto_ret m)]) ms) @
     [Ev_mdnsd_out False]"

text \<open>The events of reading the socket.\<close>

fun is_read :: "event \<Rightarrow> bool" where
  "is_read (Ev_recvfrom n en) = True"
| "is_read (Ev_message_parse p r) = True"
| "is_read (Ev_mdnsd_in p) = True"
| "is_read e = False"

section \<open>Concrete runs\<close>

text \<open>A Linux build, a socket layer on which every call succeeds, and one interface
  \<open>eth0\<close> that the first scan of the daemon finds; later scans change nothing.\<close>

definition ex_build :: build where
  "ex_build = \<lparr> have_so_reuseport = True, have_ip_mreqn = True \<rparr>"

definition ex_sock :: sock_env where
  "ex_sock = \<lparr> socket_ret = 3, setsockopt_ret = (\<lambda>opt. 0), getsockopt_ret = 0,
               rcvbuf = 212992, if_nametoindex_ret = 2, bind_ret = 0 \<rparr>"

definition ex_eth0 :: iface where
  "ex_eth0 = \<lparr> ifname = ''eth0'', ifindex = 2, hostid = 1, changed = 1, unused = 0,
               sd = - 1, mdns = None \<rparr>"

definition ex_scan :: sys_env where
  "ex_scan = \<lparr> iface_init = (\<lambda>is. [ex_eth0]),
               setup_at = (\<lambda>k. \<lparr> mdnsd_new_ret = Some 0, sock = ex_sock \<rparr>) \<rparr>"

definition ex_rescan :: sys_env where
  "ex_rescan = \<lparr> iface_init = (\<lambda>is. is),
                 setup_at = (\<lambda>k. \<lparr> mdnsd_new_ret = Some 0, sock = ex_sock \<rparr>) \<rparr>"

text \<open>A later scan that finds a second interface \<open>eth1\<close> and sets it up with engine
  context 1 on socket 4.\<close>

definition ex_plug :: sys_env where
  "ex_plug =
     \<lparr> iface_init = (\<lambda>is. is @ [ex_eth0\<lparr> ifname := ''eth1'', ifindex := 3 \<rparr>]),
       setup_at = (\<lambda>k. \<lparr> mdnsd_new_ret = Some 1, sock = ex_sock\<lparr> socket_ret := 4 \<rparr> \<rparr>) \<rparr>"

text \<open>A later scan that finds a second interface, on which \<^verbatim>\<open>socket\<close> fails.\<close>

definition ex_hotplug :: sys_env where
  "ex_hotplug =
     \<lparr> iface_init = (\<lambda>is. is @ [ex_eth0\<lparr> ifname := ''eth1'', ifindex := 3 \<rparr>]),
       setup_at = (\<lambda>k. \<lparr> mdnsd_new_ret = Some 1, sock = ex_sock\<lparr> socket_ret := - 1 \<rparr> \<rparr>) \<rparr>"

definition ex_start :: start_env where
  "ex_start = \<lparr> atoi = (\<lambda>a. 0), mdnsd_log_level_ret = (\<lambda>a. 0), daemon_ret = 0,
                init_sys = ex_scan \<rparr>"

text \<open>\<^verbatim>\<open>mdnsd\<close> started with no option and no operand.\<close>

definition ex_cmdline :: cmdline where
  "ex_cmdline = \<lparr> opts = [], operands = [] \<rparr>"

text \<open>The state of that daemon when it enters its loop.\<close>

definition ex_up :: state where
  "ex_up = init_state
     \<lparr> path := ''/etc/mdns.d'',
       ifaces := [ex_eth0\<lparr> mdns := Some 0, sd := 3, changed := 0 \<rparr>] \<rparr>"

text \<open>A pass in which the signals \<open>gs\<close> arrive, \<^verbatim>\<open>select\<close> returns \<open>rc\<close> (with
  \<^verbatim>\<open>EINTR\<close> when that is negative) and leaves \<open>left\<close> in \<open>tv\<close>, and
  \<^verbatim>\<open>mdnsd_step\<close> succeeds, fires the callbacks \<open>cs\<close> and reports the deadline
  \<open>nxt\<close>.\<close>

definition ex_pass ::
  "signal list \<Rightarrow> int \<Rightarrow> timeval \<Rightarrow> (string \<times> int) list \<Rightarrow> timeval \<Rightarrow> pass_env" where
  "ex_pass gs rc left cs nxt =
     \<lparr> signals = gs, select_rc = rc, select_errno = (if rc < 0 then EINTR else 0),
       select_tv = left, clock = 100, sysenv = ex_rescan,
       step = (\<lambda>k. \<lparr> conflicts = cs, step_rc = 0, step_next = nxt, fd_isset = (rc > 0) \<rparr>) \<rparr>"

definition ex_zero :: timeval where
  "ex_zero = \<lparr> tv_sec = 0, tv_usec = 0 \<rparr>"

text \<open>\<^verbatim>\<open>mquery -w 1\<close> on the same machine, and a pass of its loop at time \<open>t\<close> in which
  \<^verbatim>\<open>recvfrom\<close> returns \<open>rs\<close> and the engine has the messages \<open>ms\<close> to send. Only a
  first byte of zero parses.\<close>

definition ex_mq :: mq_env where
  "ex_mq = \<lparr> mq_atoi = (\<lambda>a. 1), DISCO_NAME = ''_services._dns-sd._udp.local.'',
             getifname_ret = Some ''eth0'', mq_sock = ex_sock, mq_new_ret = Some 0,
             start_time = 1000,
             message_parse_ret = (\<lambda>p. if p \<noteq> [] \<and> hd p = 0 then 0 else 1) \<rparr>"

definition ex_mq_cmdline :: cmdline where
  "ex_mq_cmdline = \<lparr> opts = [(CHR ''w'', ''1'')], operands = [] \<rparr>"

definition ex_iter :: "int \<Rightarrow> recv_ret list \<Rightarrow> out_ret list \<Rightarrow> iter_env" where
  "ex_iter t rs ms =
     \<lparr> sleep_tv = \<lparr> tv_sec = 1, tv_usec = 0 \<rparr>, readable = (rs \<noteq> []), recvs = rs,
       outs = ms, now = t \<rparr>"

lemmas ex_defs =
  ex_build_def ex_sock_def ex_eth0_def ex_scan_def ex_rescan_def ex_plug_def ex_hotplug_def
  ex_start_def
  ex_cmdline_def
  ex_up_def ex_pass_def ex_zero_def ex_mq_def ex_mq_cmdline_def ex_iter_def

section \<open>The daemon's socket options\<close>

text \<open>Definitions to unfold when a concrete run is evaluated.\<close>

lemmas mdnsd_defs =
  mdnsd_main_def main_loop_def loop_pass_def sys_init_def setup_iface_def
  after_select_def done_handler_def reconf_def multicast_socket_def setsockopt_or_log_def
  init_state_def sig_init_def finish_def free_iface_def sys_timeout_def select_nfds_def
  reload_config_def mdnsd_conflict_def int_wrap_def SYS_INTERVAL_def uchar_def EINTR_def

lemmas mquery_defs =
  mquery_main_def mquery_pass_def msock_def setsockopt_or_log_def mq_init_def mq_usage_def
  EAGAIN_def

lemma ex_up_reached:
  "sys_init ex_build ex_scan (init_state\<lparr>path := ''/etc/mdns.d''\<rparr>) =
     (fst (sys_init ex_build ex_scan (init_state\<lparr>path := ''/etc/mdns.d''\<rparr>)), Inr ex_up)"
  by (simp add: ex_defs mdnsd_defs)

lemma sockopt_values_append:
  "sockopt_values opt (xs @ ys) = sockopt_values opt xs @ sockopt_values opt ys"
  by (induction opt xs rule: sockopt_values.induct) auto

lemma sockopt_values_or_log:
  "sockopt_values opt (setsockopt_or_log env fd opt' v lvl msg) = (if opt' = opt then [v] else [])"
  by (simp add: setsockopt_or_log_def)

lemma multicast_socket_ttl:
  "sockopt_values IP_MULTICAST_TTL (fst (multicast_socket b env i t)) =
     (if socket_ret env < 0 then [] else [V_uchar t])"
  by (simp add: multicast_socket_def Let_def sockopt_values_append sockopt_values_or_log)

text \<open>Claim C2 says that a daemon started without \<open>-t\<close> sets \<^verbatim>\<open>IP_MULTICAST_TTL\<close> to
  1 on its multicast socket. The global \<open>ttl\<close> starts at 255 and only \<open>-t\<close> assigns it, so
  on the run with an empty command line the one \<^verbatim>\<open>setsockopt\<close> call for
  \<^verbatim>\<open>IP_MULTICAST_TTL\<close> passes 255.\<close>

theorem default_multicast_ttl_is_255:
  "sockopt_values IP_MULTICAST_TTL (fst (mdnsd_main ex_build ex_start ex_cmdline [])) =
     [V_uchar 255]"
  by (simp add: ex_defs mdnsd_defs)

text \<open>Claim C3 says that \<^verbatim>\<open>multicast_socket\<close> sets \<^verbatim>\<open>IP_MULTICAST_LOOP\<close> to 0 on
  every socket it creates. Whatever the build, the environment, the interface and the
  TTL, the function calls \<^verbatim>\<open>setsockopt\<close> for \<^verbatim>\<open>IP_MULTICAST_LOOP\<close> exactly once
  on a socket it could create, and the value it passes is the \<^verbatim>\<open>unsigned char\<close> 1.\<close>

theorem multicast_socket_sets_loop_to_1:
  "sockopt_values IP_MULTICAST_LOOP (fst (multicast_socket b env i t)) =
     (if socket_ret env < 0 then [] else [V_uchar 1])"
  by (simp add: multicast_socket_def Let_def sockopt_values_append sockopt_values_or_log)

section \<open>The daemon's select timeout\<close>

text \<open>The loop over the interfaces never raises the seconds of \<open>tv\<close>, and it leaves
  the microseconds alone unless it takes a whole deadline.\<close>

lemma step_ifaces_tv:
  "tv_sec (fst (snd (snd (step_ifaces env k is t rl)))) \<le> tv_sec t \<and>
   (tv_sec (fst (snd (snd (step_ifaces env k is t rl)))) = tv_sec t \<longrightarrow>
      fst (snd (snd (step_ifaces env k is t rl))) = t)"
proof (induction "is" arbitrary: k t rl)
  case Nil
  show ?case by simp
next
  case (Cons i rest)
  show ?case
  proof (cases "unused i \<noteq> 0 \<or> sd i < 0")
    case True
    with Cons.IH [of "Suc k" t rl] show ?thesis by (simp add: case_prod_beta)
  next
    case False
    let ?rl = "snd (snd (fire_conflicts (conflicts (env k)) i rl))"
    define t1 where "t1 = (if step_rc (env k) = 0
               then (if tv_sec t > tv_sec (step_next (env k)) then step_next (env k) else t) else t)"
    have t1: "tv_sec t1 \<le> tv_sec t" "tv_sec t1 = tv_sec t \<Longrightarrow> t1 = t"
      by (auto simp: t1_def)
    have res: "fst (snd (snd (step_ifaces env k (i # rest) t rl))) =
               fst (snd (snd (step_ifaces env (Suc k) rest t1 ?rl)))"
      using False by (simp add: case_prod_beta Let_def t1_def)
    from Cons.IH [of "Suc k" t1 ?rl] t1 show ?thesis
      unfolding res by force
  qed
qed

text \<open>Claim C10 says that the timeout of every \<^verbatim>\<open>select\<close> of the daemon is at most
  \<open>SYS_INTERVAL\<close> seconds. Line 438 assigns \<open>tv.tv_sec\<close> only, so the microseconds
  that an earlier deadline or \<^verbatim>\<open>select\<close> itself left in \<open>tv\<close> stay: on the run
  below the engine first reports a deadline of 2.5 s, \<^verbatim>\<open>select\<close> returns after 0.1 s
  with 2.4 s left, the engine then reports 20 s, and the third \<^verbatim>\<open>select\<close> is called
  with 10.4 s.\<close>

theorem select_timeout_keeps_stale_usec:
  "select_timeouts (fst (mdnsd_main ex_build ex_start ex_cmdline
      [ex_pass [] 0 ex_zero [] \<lparr>tv_sec = 2, tv_usec = 500000\<rparr>,
       ex_pass [] 1 \<lparr>tv_sec = 2, tv_usec = 400000\<rparr> [] \<lparr>tv_sec = 20, tv_usec = 0\<rparr>,
       ex_pass [] 0 ex_zero [] \<lparr>tv_sec = 20, tv_usec = 0\<rparr>])) =
     [\<lparr>tv_sec = 0, tv_usec = 0\<rparr>, \<lparr>tv_sec = 2, tv_usec = 500000\<rparr>,
      \<lparr>tv_sec = 10, tv_usec = 400000\<rparr>] \<and>
   SYS_INTERVAL * 1000000 < usecs \<lparr>tv_sec = 10, tv_usec = 400000\<rparr>"
  by (simp add: ex_defs mdnsd_defs usecs_def)

section \<open>Conflicts and reloads in the daemon\<close>

lemma int_wrap_succ: "INT_MIN \<le> h \<Longrightarrow> h < INT_MAX \<Longrightarrow> int_wrap (h + 1) = h + 1"
  by (simp add: int_wrap_def INT_MIN_def INT_MAX_def)

lemma fire_conflicts_effect:
  "fire_conflicts cs i rl =
     (fst (fire_conflicts cs i rl),
      if rl = 0 \<and> cs \<noteq> [] then (i\<lparr>hostid := int_wrap (hostid i + 1)\<rparr>, 1) else (i, rl))"
proof (induction cs arbitrary: i rl)
  case Nil
  show ?case by simp
next
  case (Cons c cs)
  obtain n t where c: "c = (n, t)" by (cases c)
  show ?case
    apply (subst (1 2) c)
    apply (simp only: fire_conflicts.simps)
    apply (subst Cons.IH)
    apply (subst (2) Cons.IH)
    apply (simp add: mdnsd_conflict_def case_prod_beta)
    done
qed


lemma no_reload_mono: "no_reload rl' \<le> no_reload rl \<longleftrightarrow> (rl \<noteq> 0 \<longrightarrow> rl' \<noteq> 0)"
  by (simp add: no_reload_def)

lemma bumped_once_later:
  "bumped_once n h rl0 rl i \<Longrightarrow> no_reload rl' \<le> no_reload rl \<Longrightarrow> bumped_once n h rl0 rl' i"
  by (auto simp: bumped_once_def no_reload_mono)

lemma bumped_once_same:
  "bumped_once n h rl0 rl i \<Longrightarrow> ifname i' = ifname i \<Longrightarrow> hostid i' = hostid i \<Longrightarrow>
   bumped_once n h rl0 rl i'"
  by (simp add: bumped_once_def)

lemma fire_conflicts_bumped_once:
  assumes "no_reload rl \<le> no_reload rl0" and "bumped_once n h rl0 rl i"
  shows "no_reload (snd (snd (fire_conflicts cs i rl))) \<le> no_reload rl \<and>
         bumped_once n h rl0 (snd (snd (fire_conflicts cs i rl))) (fst (snd (fire_conflicts cs i rl)))"
  using assms
  by (subst (1 2 3) fire_conflicts_effect)
     (auto simp: bumped_once_def no_reload_def split: if_splits)


lemma step_ifaces_bumped_once:
  assumes "no_reload rl \<le> no_reload rl0" and "\<forall>i\<in>set is. bumped_once n h rl0 rl i"
  shows "no_reload (snd (snd (snd (step_ifaces env k is t rl)))) \<le> no_reload rl \<and>
         (\<forall>i\<in>set (fst (snd (step_ifaces env k is t rl))).
            bumped_once n h rl0 (snd (snd (snd (step_ifaces env k is t rl)))) i)"
  using assms
proof (induction "is" arbitrary: k t rl)
  case Nil
  show ?case by simp
next
  case (Cons i rest)
  show ?case
  proof (cases "unused i \<noteq> 0 \<or> sd i < 0")
    case True
    let ?r = "step_ifaces env (Suc k) rest t rl"
    from Cons.prems have rest: "\<forall>j\<in>set rest. bumped_once n h rl0 rl j"
      and hd: "bumped_once n h rl0 rl i" by simp_all
    from Cons.IH [OF Cons.prems(1) rest, of "Suc k" t]
    have ih: "no_reload (snd (snd (snd ?r))) \<le> no_reload rl"
      "\<forall>j\<in>set (fst (snd ?r)). bumped_once n h rl0 (snd (snd (snd ?r))) j"
      by simp_all
    from bumped_once_later [OF hd ih(1)] ih True
    show ?thesis by (simp add: case_prod_beta)
  next
    case False
    let ?f = "fire_conflicts (conflicts (env k)) i rl"
    let ?t1 = "if step_rc (env k) = 0
               then (if tv_sec t > tv_sec (step_next (env k)) then step_next (env k) else t) else t"
    let ?r = "step_ifaces env (Suc k) rest ?t1 (snd (snd ?f))"
    from Cons.prems have rest: "\<forall>j\<in>set rest. bumped_once n h rl0 rl j"
      and hd: "bumped_once n h rl0 rl i" by simp_all
    from fire_conflicts_bumped_once [OF Cons.prems(1) hd, of "conflicts (env k)"]
    have f: "no_reload (snd (snd ?f)) \<le> no_reload rl"
      "bumped_once n h rl0 (snd (snd ?f)) (fst (snd ?f))"
      by simp_all
    from f(1) Cons.prems(1) have le0: "no_reload (snd (snd ?f)) \<le> no_reload rl0" by simp
    from rest f(1) have rest1: "\<forall>j\<in>set rest. bumped_once n h rl0 (snd (snd ?f)) j"
      by (blast intro: bumped_once_later)
    from Cons.IH [OF le0 rest1, of "Suc k" ?t1]
    have ih: "no_reload (snd (snd (snd ?r))) \<le> no_reload (snd (snd ?f))"
      "\<forall>j\<in>set (fst (snd ?r)). bumped_once n h rl0 (snd (snd (snd ?r))) j"
      by simp_all
    from bumped_once_later [OF f(2) ih(1)] ih f(1) False
    show ?thesis by (simp add: case_prod_beta Let_def)
  qed
qed

lemma setup_iface_keeps:
  "snd (setup_iface b s env i) = Inr i' \<Longrightarrow> hostid i' = hostid i \<and> ifname i' = ifname i"
  by (auto simp: setup_iface_def case_prod_beta split: if_splits option.splits sum.splits)

lemma setup_all_keeps:
  "snd (setup_all b s env k is) = Inr is' \<Longrightarrow>
   map hostid is' = map hostid is \<and> map ifname is' = map ifname is"
proof (induction "is" arbitrary: k is')
  case Nil
  then show ?case by simp
next
  case (Cons i rest)
  then show ?case
    by (auto simp: case_prod_beta setup_iface_keeps split: sum.splits)
qed

lemma sys_init_keeps:
  "snd (sys_init b env s) = Inr s' \<Longrightarrow>
   map hostid (ifaces s') = map hostid (iface_init env (ifaces s)) \<and>
   map ifname (ifaces s') = map ifname (iface_init env (ifaces s)) \<and>
   reload s' = reload s \<and> running s' = running s"
  by (auto simp: sys_init_def case_prod_beta setup_all_keeps split: sum.splits)

lemma same_names_and_ids:
  assumes "map hostid is' = map hostid is" and "map ifname is' = map ifname is"
    and "i' \<in> set is'"
  shows "\<exists>i\<in>set is. ifname i = ifname i' \<and> hostid i = hostid i'"
proof -
  from assms(3) obtain k where k: "k < length is'" "is' ! k = i'"
    by (auto simp: in_set_conv_nth)
  from assms(1) have len: "length is' = length is" by (rule map_eq_imp_length_eq)
  from assms(1) k len have "hostid (is ! k) = hostid i'"
    by (metis nth_map)
  moreover from assms(2) k len have "ifname (is ! k) = ifname i'"
    by (metis nth_map)
  ultimately show ?thesis using k len by (metis nth_mem)
qed

lemma deliver_all_ifaces: "ifaces (foldl (\<lambda>s g. deliver g s) s gs) = ifaces s"
proof (induction gs arbitrary: s)
  case Nil
  show ?case by simp
next
  case (Cons g gs)
  show ?case by (cases g) (simp_all add: Cons.IH done_handler_def reconf_def)
qed

lemma deliver_all_reload:
  "no_reload (reload (foldl (\<lambda>s g. deliver g s) s gs)) \<le> no_reload (reload s)"
proof (induction gs arbitrary: s)
  case Nil
  show ?case by simp
next
  case (Cons g gs)
  have "no_reload (reload (deliver g s)) \<le> no_reload (reload s)"
    by (cases g) (simp_all add: done_handler_def reconf_def no_reload_def)
  with Cons.IH [of "deliver g s"] show ?case by simp
qed




lemma fire_conflicts_name: "ifname (fst (snd (fire_conflicts cs i rl))) = ifname i"
  by (subst fire_conflicts_effect) simp

lemma step_ifaces_names: "map ifname (fst (snd (step_ifaces env k is t rl))) = map ifname is"
  by (induction "is" arbitrary: k t rl)
     (simp_all add: case_prod_beta Let_def fire_conflicts_name)

lemma named_iff: "(\<exists>i\<in>set is. ifname i = n) \<longleftrightarrow> n \<in> set (map ifname is)"
  by auto

lemma loop_pass_bumped_once:
  assumes "loop_pass b e s = (tr, r)" and "r = Continue s' \<or> r = Break s'"
    and "Ev_pidfile \<notin> set tr"
    and scan: "\<forall>is. (\<exists>i\<in>set is. ifname i = n) \<longrightarrow>
                 (\<exists>i'\<in>set (iface_init (sysenv e) is). ifname i' = n) \<and>
                 (\<forall>i'\<in>set (iface_init (sysenv e) is).
                    ifname i' = n \<longrightarrow> (\<exists>i\<in>set is. ifname i = n \<and> hostid i = hostid i'))"
    and "no_reload (reload s) \<le> no_reload rl0"
    and "\<forall>i\<in>set (ifaces s). bumped_once n h rl0 (reload s) i"
    and "\<exists>i\<in>set (ifaces s). ifname i = n"
  shows "no_reload (reload s') \<le> no_reload rl0 \<and>
         (\<forall>i\<in>set (ifaces s'). bumped_once n h rl0 (reload s') i) \<and>
         (\<exists>i\<in>set (ifaces s'). ifname i = n)"
proof -
  define s1 where "s1 = after_select e s"
  have s1: "ifaces s1 = ifaces s" "no_reload (reload s1) \<le> no_reload (reload s)"
    by (simp_all add: s1_def after_select_def deliver_all_ifaces deliver_all_reload)
  from s1 assms(5) have le1: "no_reload (reload s1) \<le> no_reload rl0" by simp
  from s1 assms(6) have inv1: "\<forall>i\<in>set (ifaces s1). bumped_once n h rl0 (reload s1) i"
    by (auto intro: bumped_once_later)
  from s1 assms(7) have here1: "\<exists>i\<in>set (ifaces s1). ifname i = n" by simp
  show ?thesis
  proof (cases "(select_rc e < 0 \<and> select_errno e = EINTR) \<or> reload s1 \<noteq> 0")
    case True
    with assms(1-3) have "s' = s1"
      by (auto simp: loop_pass_def Let_def s1_def [symmetric] case_prod_beta
               split: if_splits sum.splits)
    with le1 inv1 here1 show ?thesis by simp
  next
    case False
    obtain q s2 where st: "sys_timeout (clock e) s1 = (q, s2)"
      by (cases "sys_timeout (clock e) s1")
    then have s2: "ifaces s2 = ifaces s1" "reload s2 = reload s1"
      by (auto simp: sys_timeout_def split: if_splits)
    define m where "m = (if q \<noteq> 0 then sys_init b (sysenv e) s2 else ([], Inr s2))"
    from assms(1,2) False st obtain s3 where s3: "snd m = Inr s3"
      by (auto simp: loop_pass_def Let_def s1_def [symmetric] m_def [symmetric] case_prod_beta
               split: sum.splits)
    have rl3: "reload s3 = reload s1"
      using s3 s2 sys_init_keeps [of b "sysenv e" s2 s3]
      by (auto simp: m_def split: if_splits)
    from here1 s2 have here2: "\<exists>i\<in>set (ifaces s2). ifname i = n" by simp
    have inv3: "(\<forall>i\<in>set (ifaces s3). bumped_once n h rl0 (reload s3) i) \<and>
                (\<exists>i\<in>set (ifaces s3). ifname i = n)"
    proof (cases "q \<noteq> 0")
      case False
      with s3 have "s3 = s2" by (simp add: m_def)
      with inv1 here1 s2 show ?thesis by simp
    next
      case True
      with s3 have si: "snd (sys_init b (sysenv e) s2) = Inr s3" by (simp add: m_def)
      let ?scanned = "iface_init (sysenv e) (ifaces s2)"
      from scan here2 have kept: "\<exists>i'\<in>set ?scanned. ifname i' = n"
        and same: "\<forall>i'\<in>set ?scanned.
                     ifname i' = n \<longrightarrow> (\<exists>i\<in>set (ifaces s2). ifname i = n \<and> hostid i = hostid i')"
        by blast+
      from kept sys_init_keeps [OF si] have here3: "\<exists>i\<in>set (ifaces s3). ifname i = n"
        by (simp add: named_iff)
      have "\<forall>i\<in>set (ifaces s3). bumped_once n h rl0 (reload s3) i"
      proof
        fix i3 assume i3: "i3 \<in> set (ifaces s3)"
        from sys_init_keeps [OF si] i3
        obtain i' where i': "i' \<in> set ?scanned"
            "ifname i' = ifname i3" "hostid i' = hostid i3"
          using same_names_and_ids [of "ifaces s3" ?scanned i3]
          by blast
        show "bumped_once n h rl0 (reload s3) i3"
        proof (cases "ifname i3 = n")
          case False
          then show ?thesis by (simp add: bumped_once_def)
        next
          case True
          with same i' obtain i where i: "i \<in> set (ifaces s2)" "ifname i = n"
              "hostid i = hostid i'"
            by metis
          from i(1) inv1 s2 have "bumped_once n h rl0 (reload s1) i" by simp
          with i i' True rl3 show ?thesis by (simp add: bumped_once_def)
        qed
      qed
      with here3 show ?thesis by simp
    qed
    let ?st = "step_ifaces (step e) 0 (ifaces s3) ((tv s3)\<lparr>tv_sec := timeout s3\<rparr>) (reload s3)"
    from assms(1,2) False st s3
    have s': "ifaces s' = fst (snd ?st)" "reload s' = snd (snd (snd ?st))"
      by (auto simp: loop_pass_def Let_def s1_def [symmetric] m_def [symmetric] case_prod_beta)
    from le1 rl3 have le3: "no_reload (reload s3) \<le> no_reload rl0" by simp
    from inv3 have here': "\<exists>i\<in>set (ifaces s'). ifname i = n"
      by (simp add: named_iff s' step_ifaces_names)
    from inv3 have b3: "\<forall>i\<in>set (ifaces s3). bumped_once n h rl0 (reload s3) i" by simp
    from step_ifaces_bumped_once [OF le3 b3, of "step e" 0 "(tv s3)\<lparr>tv_sec := timeout s3\<rparr>"]
      s' le3 here'
    show ?thesis by simp
  qed
qed

lemma run_passes_bumped_once:
  assumes "run_passes b es s = (tr, r)" and "r = Continue s' \<or> r = Break s'"
    and "Ev_pidfile \<notin> set tr"
    and "\<forall>e\<in>set es. \<forall>is. (\<exists>i\<in>set is. ifname i = n) \<longrightarrow>
           (\<exists>i'\<in>set (iface_init (sysenv e) is). ifname i' = n) \<and>
           (\<forall>i'\<in>set (iface_init (sysenv e) is).
              ifname i' = n \<longrightarrow> (\<exists>i\<in>set is. ifname i = n \<and> hostid i = hostid i'))"
    and "no_reload (reload s) \<le> no_reload rl0"
    and "\<forall>i\<in>set (ifaces s). bumped_once n h rl0 (reload s) i"
    and "\<exists>i\<in>set (ifaces s). ifname i = n"
  shows "no_reload (reload s') \<le> no_reload rl0 \<and>
         (\<forall>i\<in>set (ifaces s'). bumped_once n h rl0 (reload s') i) \<and>
         (\<exists>i\<in>set (ifaces s'). ifname i = n)"
  using assms
proof (induction es arbitrary: s tr)
  case Nil
  then have "s' = s" by (auto split: if_splits)
  with Nil show ?case by simp
next
  case (Cons e es)
  show ?case
  proof (cases "running s = 0")
    case True
    with Cons.prems have "s' = s" by auto
    with Cons.prems show ?thesis by simp
  next
    case False
    obtain tr1 r1 where p: "loop_pass b e s = (tr1, r1)" by (cases "loop_pass b e s")
    have init: "\<forall>is. (\<exists>i\<in>set is. ifname i = n) \<longrightarrow>
           (\<exists>i'\<in>set (iface_init (sysenv e) is). ifname i' = n) \<and>
           (\<forall>i'\<in>set (iface_init (sysenv e) is).
              ifname i' = n \<longrightarrow> (\<exists>i\<in>set is. ifname i = n \<and> hostid i = hostid i'))"
      using Cons.prems(4) by simp
    have later: "\<forall>e\<in>set es. \<forall>is. (\<exists>i\<in>set is. ifname i = n) \<longrightarrow>
           (\<exists>i'\<in>set (iface_init (sysenv e) is). ifname i' = n) \<and>
           (\<forall>i'\<in>set (iface_init (sysenv e) is).
              ifname i' = n \<longrightarrow> (\<exists>i\<in>set is. ifname i = n \<and> hostid i = hostid i'))"
      using Cons.prems(4) by simp
    show ?thesis
    proof (cases r1)
      case (Continue s1)
      obtain tr2 r2 where q: "run_passes b es s1 = (tr2, r2)" by (cases "run_passes b es s1")
      from Cons.prems(1) False p Continue q have tr: "tr = tr1 @ tr2" and r: "r2 = r" by auto
      from tr Cons.prems(3) have np: "Ev_pidfile \<notin> set tr1" "Ev_pidfile \<notin> set tr2" by auto
      have a: "no_reload (reload s1) \<le> no_reload rl0 \<and>
         (\<forall>i\<in>set (ifaces s1). bumped_once n h rl0 (reload s1) i) \<and>
         (\<exists>i\<in>set (ifaces s1). ifname i = n)"
        using loop_pass_bumped_once [OF p _ np(1) init Cons.prems(5,6,7), of s1] Continue
        by simp
      from a have a1: "no_reload (reload s1) \<le> no_reload rl0"
        and a2: "\<forall>i\<in>set (ifaces s1). bumped_once n h rl0 (reload s1) i"
        and a3: "\<exists>i\<in>set (ifaces s1). ifname i = n" by simp_all
      show ?thesis
        by (rule Cons.IH [OF q [unfolded r] Cons.prems(2) np(2) later a1 a2 a3])
    next
      case (Exit c)
      with Cons.prems(1,2) False p show ?thesis by auto
    next
      case (Break s1)
      with Cons.prems(1,2) False p have "tr = tr1" "r1 = Break s'" by auto
      with loop_pass_bumped_once [OF p _ _ init Cons.prems(5,6,7), of s'] Cons.prems(3)
      show ?thesis by simp
    qed
  qed
qed

text \<open>Claim C9: between two configuration reloads an interface's \<open>hostid\<close> increases by
  at most one, however many conflict callbacks fire. Take any passes of the main loop,
  from any state, in which no reload is processed (the reload code alone calls
  \<^verbatim>\<open>pidfile\<close> inside the loop), and an interface that persists: the list has an
  interface named \<open>n\<close> at the start, those of that name start with host id \<open>h\<close>, and a
  scan of a list that has one of that name leaves one, each with the host id of one of
  that name in the list. Of the other interfaces a scan may add, drop and change any.
  Then the list still has an interface named \<open>n\<close>, and every interface of that name
  ends with host id \<open>h\<close> or with its successor; with \<open>h\<close> when a reload was pending at
  the start, and when none is pending at the end. The successor is \<open>h + 1\<close> for every
  \<open>h\<close> below \<open>INT_MAX\<close>.\<close>

theorem hostid_bumped_once_between_reloads:
  assumes "run_passes b es s = (tr, r)" and "r = Continue s' \<or> r = Break s'"
    and "Ev_pidfile \<notin> set tr"
    and "\<forall>e\<in>set es. \<forall>is. (\<exists>i\<in>set is. ifname i = n) \<longrightarrow>
           (\<exists>i'\<in>set (iface_init (sysenv e) is). ifname i' = n) \<and>
           (\<forall>i'\<in>set (iface_init (sysenv e) is).
              ifname i' = n \<longrightarrow> (\<exists>i\<in>set is. ifname i = n \<and> hostid i = hostid i'))"
    and "\<exists>i\<in>set (ifaces s). ifname i = n"
    and "\<forall>i\<in>set (ifaces s). ifname i = n \<longrightarrow> hostid i = h"
  shows "(\<exists>i\<in>set (ifaces s'). ifname i = n) \<and>
         (\<forall>i\<in>set (ifaces s'). ifname i = n \<longrightarrow>
            (hostid i = h \<or> hostid i = int_wrap (h + 1)) \<and>
            (reload s \<noteq> 0 \<or> reload s' = 0 \<longrightarrow> hostid i = h) \<and>
            (INT_MIN \<le> h \<and> h < INT_MAX \<longrightarrow> h \<le> hostid i \<and> hostid i \<le> h + 1))"
proof -
  have start: "\<forall>i\<in>set (ifaces s). bumped_once n h (reload s) (reload s) i"
    using assms(6) by (simp add: bumped_once_def)
  from run_passes_bumped_once [OF assms(1-4) _ start assms(5)]
  have inv: "\<forall>i\<in>set (ifaces s'). bumped_once n h (reload s) (reload s') i"
    and here: "\<exists>i\<in>set (ifaces s'). ifname i = n"
    by simp_all
  have "(hostid i = h \<or> hostid i = int_wrap (h + 1)) \<and>
        (reload s \<noteq> 0 \<or> reload s' = 0 \<longrightarrow> hostid i = h) \<and>
        (INT_MIN \<le> h \<and> h < INT_MAX \<longrightarrow> h \<le> hostid i \<and> hostid i \<le> h + 1)"
    if i: "i \<in> set (ifaces s')" and n: "ifname i = n" for i
  proof -
    from inv i have "bumped_once n h (reload s) (reload s') i" by simp
    with n have b: "hostid i = h \<or>
        (hostid i = int_wrap (h + 1) \<and> reload s = 0 \<and> reload s' \<noteq> 0)"
      by (simp add: bumped_once_def)
    from b have one: "hostid i = h \<or> hostid i = int_wrap (h + 1)" by blast
    from b have two: "reload s \<noteq> 0 \<or> reload s' = 0 \<longrightarrow> hostid i = h" by blast
    from one have three: "INT_MIN \<le> h \<and> h < INT_MAX \<longrightarrow> h \<le> hostid i \<and> hostid i \<le> h + 1"
      by (auto simp: int_wrap_succ)
    from one two three show ?thesis by (intro conjI)
  qed
  with here show ?thesis by blast
qed

text \<open>The theorem at work, twice. The running daemon of the concrete run, whose
  \<open>eth0\<close> has \<open>hostid\<close> 1, goes through two passes. Ten seconds are over in the second:
  the scan finds \<open>eth1\<close> next to \<open>eth0\<close> and sets it up, and then \<^verbatim>\<open>mdnsd_step\<close> fires
  three conflict callbacks on either interface. No reload is processed, the list has
  grown to two interfaces, and the \<open>hostid\<close> of \<open>eth0\<close> ends at 2. The same daemon with a
  reload pending is stopped by \<^verbatim>\<open>SIGTERM\<close> before it reloads: the loop breaks and
  \<open>hostid\<close> is still 1.\<close>

theorem hostid_bumped_once_witness:
  "(\<exists>s'. snd (run_passes ex_build
             [ex_pass [] 0 ex_zero [] ex_zero,
              (ex_pass [] 1 ex_zero
                 [(''eth0.local.'', 1), (''eth0.local.'', 1), (''eth0.local.'', 28)] ex_zero)
                \<lparr> clock := 111, sysenv := ex_plug \<rparr>]
             ex_up) = Continue s' \<and>
        map ifname (ifaces ex_up) = [''eth0''] \<and> map hostid (ifaces ex_up) = [1] \<and>
        map ifname (ifaces s') = [''eth0'', ''eth1''] \<and> map hostid (ifaces s') = [2, 1] \<and>
        reload s' = 1 \<and>
        1 \<le> hostid (ifaces s' ! 0) \<and> hostid (ifaces s' ! 0) \<le> 1 + 1) \<and>
   (\<exists>s'. snd (run_passes ex_build [ex_pass [SIGTERM] (- 1) ex_zero [] ex_zero]
             (ex_up\<lparr>reload := 1\<rparr>)) = Break s' \<and>
        map ifname (ifaces s') = [''eth0''] \<and> hostid (ifaces s' ! 0) = 1)"
proof -
  let ?p = "ex_pass [] 0 ex_zero [] ex_zero"
  let ?q = "(ex_pass [] 1 ex_zero
               [(''eth0.local.'', 1), (''eth0.local.'', 1), (''eth0.local.'', 28)] ex_zero)
              \<lparr> clock := 111, sysenv := ex_plug \<rparr>"
  let ?run = "run_passes ex_build [?p, ?q] ex_up"
  have "\<exists>s'. snd ?run = Continue s' \<and> map ifname (ifaces s') = [''eth0'', ''eth1''] \<and>
          map hostid (ifaces s') = [2, 1] \<and> reload s' = 1"
    by (simp add: ex_defs mdnsd_defs Let_def)
  then obtain s' where s': "snd ?run = Continue s'"
      "map ifname (ifaces s') = [''eth0'', ''eth1'']" "map hostid (ifaces s') = [2, 1]"
      "reload s' = 1"
    by (elim exE conjE)
  from s'(1) have run: "?run = (fst ?run, Continue s')" by (simp add: prod_eq_iff)
  have np: "Ev_pidfile \<notin> set (fst ?run)"
    by (simp add: ex_defs mdnsd_defs Let_def)
  have scans: "\<forall>e\<in>set [?p, ?q]. \<forall>is. (\<exists>i\<in>set is. ifname i = ''eth0'') \<longrightarrow>
      (\<exists>i'\<in>set (iface_init (sysenv e) is). ifname i' = ''eth0'') \<and>
      (\<forall>i'\<in>set (iface_init (sysenv e) is).
         ifname i' = ''eth0'' \<longrightarrow> (\<exists>i\<in>set is. ifname i = ''eth0'' \<and> hostid i = hostid i'))"
    by (auto simp: ex_defs)
  have up: "map ifname (ifaces ex_up) = [''eth0'']" "map hostid (ifaces ex_up) = [1]"
    by (simp_all add: ex_defs init_state_def)
  have there: "\<exists>i\<in>set (ifaces ex_up). ifname i = ''eth0''"
    by (simp add: ex_defs init_state_def)
  have start: "\<forall>i\<in>set (ifaces ex_up). ifname i = ''eth0'' \<longrightarrow> hostid i = 1"
    by (simp add: ex_defs init_state_def)
  have bounds: "INT_MIN \<le> 1 \<and> 1 < INT_MAX"
    by (simp add: INT_MIN_def INT_MAX_def)
  from s'(2) have first: "ifaces s' ! 0 \<in> set (ifaces s')" "ifname (ifaces s' ! 0) = ''eth0''"
    by (cases "ifaces s'"; simp)+
  from hostid_bumped_once_between_reloads [OF run _ np scans there start, of s'] first bounds
  have "1 \<le> hostid (ifaces s' ! 0) \<and> hostid (ifaces s' ! 0) \<le> 1 + 1"
    by blast
  then have one: "\<exists>s'. snd ?run = Continue s' \<and>
        map ifname (ifaces ex_up) = [''eth0''] \<and> map hostid (ifaces ex_up) = [1] \<and>
        map ifname (ifaces s') = [''eth0'', ''eth1''] \<and> map hostid (ifaces s') = [2, 1] \<and>
        reload s' = 1 \<and>
        1 \<le> hostid (ifaces s' ! 0) \<and> hostid (ifaces s' ! 0) \<le> 1 + 1"
    by (intro exI [of _ s'] conjI) (simp_all only: s' up)
  let ?t = "ex_pass [SIGTERM] (- 1) ex_zero [] ex_zero" and ?s = "ex_up\<lparr>reload := 1\<rparr>"
  let ?stop = "run_passes ex_build [?t] ?s"
  have "\<exists>s'. snd ?stop = Break s' \<and> map ifname (ifaces s') = [''eth0'']"
    by (simp add: ex_defs mdnsd_defs init_state_def)
  then obtain s'' where s'': "snd ?stop = Break s''" "map ifname (ifaces s'') = [''eth0'']"
    by (elim exE conjE)
  from s''(1) have stop: "?stop = (fst ?stop, Break s'')" by (simp add: prod_eq_iff)
  have np': "Ev_pidfile \<notin> set (fst ?stop)"
    by (simp add: ex_defs mdnsd_defs)
  have scans': "\<forall>e\<in>set [?t]. \<forall>is. (\<exists>i\<in>set is. ifname i = ''eth0'') \<longrightarrow>
      (\<exists>i'\<in>set (iface_init (sysenv e) is). ifname i' = ''eth0'') \<and>
      (\<forall>i'\<in>set (iface_init (sysenv e) is).
         ifname i' = ''eth0'' \<longrightarrow> (\<exists>i\<in>set is. ifname i = ''eth0'' \<and> hostid i = hostid i'))"
    by (auto simp: ex_defs)
  have there': "\<exists>i\<in>set (ifaces ?s). ifname i = ''eth0''"
    by (simp add: ex_defs init_state_def)
  have start': "\<forall>i\<in>set (ifaces ?s). ifname i = ''eth0'' \<longrightarrow> hostid i = 1"
    by (simp add: ex_defs init_state_def)
  have pending: "reload ?s \<noteq> 0" by simp
  from s''(2) have first': "ifaces s'' ! 0 \<in> set (ifaces s'')"
      "ifname (ifaces s'' ! 0) = ''eth0''"
    by (cases "ifaces s''"; simp)+
  from hostid_bumped_once_between_reloads [OF stop _ np' scans' there' start', of s'']
    first' pending
  have "hostid (ifaces s'' ! 0) = 1"
    by blast
  with s'' have two: "\<exists>s'. snd ?stop = Break s' \<and>
        map ifname (ifaces s') = [''eth0''] \<and> hostid (ifaces s' ! 0) = 1"
    by (intro exI [of _ s''] conjI)
  from one two show ?thesis by (rule conjI)
qed


section \<open>Exit codes\<close>

lemma ends_like_append: "ends_like ps ys \<Longrightarrow> ends_like ps (xs @ ys)"
proof -
  assume a: "ends_like ps ys"
  then have len: "length ps \<le> length ys" by (simp add: ends_like_def)
  then have "length xs + length ys - length ps = length xs + (length ys - length ps)"
    by simp
  then have "drop (length (xs @ ys) - length ps) (xs @ ys) = drop (length ys - length ps) ys"
    by simp
  with a len show ?thesis by (simp add: ends_like_def)
qed

lemma ends_like_Cons: "ends_like ps ys \<Longrightarrow> ends_like ps (x # ys)"
  using ends_like_append [of ps ys "[x]"] by simp























subsection \<open>The daemon\<close>













subsection \<open>The query tool\<close>









lemma msock_ret:
  "snd (msock b env ifn) = (if socket_ret env < 0 \<or> bind_ret env \<noteq> 0 then 0 else socket_ret env)"
  by (simp add: msock_def Let_def)






section \<open>What a conflict does to the daemon\<close>










section \<open>Shutdown in both programs\<close>

lemma immediate_free_append:
  "immediate_free xs \<Longrightarrow> immediate_free (xs @ ys) = immediate_free ys"
  by (induction xs rule: immediate_free.induct) auto

lemma immediate_free_or_log: "immediate_free (setsockopt_or_log env fd opt v lvl msg)"
  by (simp add: setsockopt_or_log_def)

lemma immediate_free_free_iface: "immediate_free (free_iface i)"
  by (simp add: free_iface_def)

lemma immediate_free_multicast_socket: "immediate_free (fst (multicast_socket b env i t))"
  by (simp add: multicast_socket_def Let_def immediate_free_append immediate_free_or_log)

lemma immediate_free_setup_iface: "immediate_free (fst (setup_iface b s env i))"
  by (simp add: setup_iface_def case_prod_beta immediate_free_append immediate_free_free_iface
        immediate_free_multicast_socket
      split: option.splits sum.splits)

lemma immediate_free_setup_all: "immediate_free (fst (setup_all b s env k is))"
  by (induction "is" arbitrary: k)
     (simp_all add: case_prod_beta immediate_free_append immediate_free_setup_iface
        split: sum.splits)

lemma immediate_free_sys_init: "immediate_free (fst (sys_init b env s))"
  by (simp add: sys_init_def case_prod_beta immediate_free_setup_all split: sum.splits)

lemma immediate_free_fire: "immediate_free (fst (fire_conflicts cs i rl))"
  by (induction cs i rl rule: fire_conflicts.induct)
     (simp_all add: mdnsd_conflict_def case_prod_beta)

lemma immediate_free_step_ifaces: "immediate_free (fst (step_ifaces env k is t rl))"
  by (induction "is" arbitrary: k t rl)
     (simp_all add: Let_def case_prod_beta immediate_free_append immediate_free_free_iface
        immediate_free_fire)

lemma immediate_free_reload_config: "immediate_free (reload_config is)"
  by (induction "is") (simp_all add: reload_config_def)

lemma immediate_free_loop_pass: "immediate_free (fst (loop_pass b e s))"
  by (simp add: loop_pass_def Let_def case_prod_beta immediate_free_append
        immediate_free_reload_config immediate_free_sys_init immediate_free_step_ifaces
      split: sum.splits)

lemma immediate_free_run_passes: "immediate_free (fst (run_passes b es s))"
  by (induction es arbitrary: s)
     (simp_all add: case_prod_beta immediate_free_append immediate_free_loop_pass
        split: ctl.splits)

lemma immediate_free_finish: "immediate_free (fst (finish s))"
proof -
  have "immediate_free (concat (map free_iface is) @ ys) = immediate_free ys" for "is" ys
    by (induction "is") (simp_all add: immediate_free_append immediate_free_free_iface)
  then show ?thesis by (simp add: finish_def)
qed

lemma immediate_free_main_loop: "immediate_free (fst (main_loop b es s))"
  using immediate_free_run_passes [of b es s]
  by (simp add: main_loop_def case_prod_beta immediate_free_append immediate_free_finish
      split: ctl.splits)

lemma immediate_free_parse_opts: "immediate_free (fst (parse_opts env os s))"
  by (induction env os s rule: parse_opts.induct)
     (simp_all add: usage_def case_prod_beta Let_def)

lemma immediate_free_mdnsd_main: "immediate_free (fst (mdnsd_main b env cl ps))"
  by (simp add: mdnsd_main_def Let_def case_prod_beta sig_init_def immediate_free_append
        immediate_free_parse_opts immediate_free_sys_init immediate_free_main_loop
      split: sum.splits)

lemma immediate_free_msock: "immediate_free (fst (msock b env ifn))"
  by (simp add: msock_def Let_def immediate_free_append immediate_free_or_log
      split: option.splits)

lemma immediate_free_recv_loop: "immediate_free (fst (recv_loop parse rs))"
  by (induction rs) (simp_all add: case_prod_beta)

lemma immediate_free_out_loop: "immediate_free (fst (out_loop ms))"
  by (induction ms) (simp_all add: case_prod_beta)

lemma immediate_free_mquery_pass: "immediate_free (fst (mquery_pass parse fd w t0 e))"
  by (simp add: mquery_pass_def Let_def case_prod_beta immediate_free_append
        immediate_free_recv_loop immediate_free_out_loop)

lemma immediate_free_mquery_loop: "immediate_free (fst (mquery_loop parse d fd w t0 es))"
  by (induction es)
     (simp_all add: case_prod_beta immediate_free_append immediate_free_mquery_pass
        split: ctl.splits)

lemma immediate_free_mq_parse_opts: "immediate_free (fst (mq_parse_opts env os s))"
  by (induction env os s rule: mq_parse_opts.induct)
     (simp_all add: mq_usage_def case_prod_beta)

lemma immediate_free_mquery_main: "immediate_free (fst (mquery_main b env cl ps))"
  by (simp add: mquery_main_def Let_def case_prod_beta immediate_free_append
        immediate_free_mq_parse_opts immediate_free_msock immediate_free_mquery_loop
      split: sum.splits option.splits)

text \<open>Claim C1 says that on every shutdown path of both programs the caller of
  \<^verbatim>\<open>mdnsd_shutdown\<close> goes on calling \<^verbatim>\<open>mdnsd_out\<close> until it returns empty before it
  frees the context and closes the socket. The daemon of the concrete run, stopped by
  \<^verbatim>\<open>SIGTERM\<close>, and the query tool whose wait has expired both free the context while
  the shutdown is still pending.\<close>

theorem shutdown_frees_without_draining:
  "\<not> drained_before_free False
       (fst (mdnsd_main ex_build ex_start ex_cmdline
               [ex_pass [SIGTERM] (- 1) ex_zero [] ex_zero])) \<and>
   \<not> drained_before_free False
       (fst (mquery_main ex_build ex_mq ex_mq_cmdline [ex_iter 1001 [] []]))"
  by (simp add: ex_defs mdnsd_defs mquery_defs)

text \<open>Claim C1 as the code has it: in every run of the daemon and of the query tool,
  each call of \<^verbatim>\<open>mdnsd_shutdown\<close> is followed at once by \<^verbatim>\<open>mdnsd_free\<close> of the same
  context. No \<^verbatim>\<open>mdnsd_out\<close> comes between the two.\<close>

theorem shutdown_is_followed_by_free:
  "immediate_free (fst (mdnsd_main b env cl ps)) \<and>
   immediate_free (fst (mquery_main b' env' cl' ps'))"
  by (simp add: immediate_free_mdnsd_main immediate_free_mquery_main)

section \<open>The query tool's loop\<close>

lemma sleeps_drained_recv:
  "sleeps_drained c p (fst (recv_loop parse rs) @ ys) = sleeps_drained False None ys"
  by (induction rs arbitrary: c p) (auto split: prod.splits)

lemma sleeps_drained_out:
  "sleeps_drained c p (fst (out_loop ms) @ ys) = sleeps_drained (\<not> snd (out_loop ms)) None ys"
  by (induction ms arbitrary: c p) (auto split: prod.splits)

lemma sleeps_drained_pass:
  "sleeps_drained True None (fst (mquery_pass parse fd w t0 e) @ ys) =
     sleeps_drained (snd (mquery_pass parse fd w t0 e) \<noteq> Exit 1) None ys"
  by (simp add: mquery_pass_def Let_def case_prod_beta sleeps_drained_recv sleeps_drained_out)

lemma sleeps_drained_rejects:
  "\<not> sleeps_drained True None [Ev_mdnsd_in p, Ev_mdnsd_sleep t, Ev_select n t]"
  "\<not> sleeps_drained True None [Ev_mdnsd_out True, Ev_mdnsd_sleep t, Ev_select n t]"
  "\<not> sleeps_drained True None
       [Ev_mdnsd_sleep t, Ev_select n t, Ev_mdnsd_sleep t, Ev_select n t]"
  "\<not> sleeps_drained True None [Ev_mdnsd_out False, Ev_select n t]"
  by simp_all

lemma sleeps_drained_loop: "sleeps_drained True None (fst (mquery_loop parse d fd w t0 es))"
proof (induction es)
  case Nil
  show ?case by simp
next
  case (Cons e es)
  obtain tr r where p: "mquery_pass parse fd w t0 e = (tr, r)"
    by (cases "mquery_pass parse fd w t0 e")
  have pass: "sleeps_drained True None (tr @ ys) = sleeps_drained (r \<noteq> Exit 1) None ys" for ys
    using sleeps_drained_pass [of parse fd w t0 e ys] p by simp
  show ?case
  proof (cases r)
    case (Exit c)
    from pass [of "[]"] show ?thesis using p Exit by simp
  next
    case (Break u)
    then show ?thesis
      using p pass [of "[Ev_mdnsd_shutdown (Some d), Ev_mdnsd_free (Some d)]"] by simp
  next
    case (Continue u)
    then show ?thesis
      using p Cons.IH pass [of "fst (mquery_loop parse d fd w t0 es)"]
      by (simp add: case_prod_beta)
  qed
qed

lemma recv_loop_reads: "list_all is_read (fst (recv_loop parse rs))"
  by (induction rs) (simp_all add: case_prod_beta)

lemma out_loop_drains: "\<not> snd (out_loop ms) \<Longrightarrow> fst (out_loop ms) = drain_events ms"
  by (induction ms) (simp_all add: drain_events_def case_prod_beta split: if_splits)

lemma mquery_pass_events:
  assumes "snd (mquery_pass parse fd w t0 e) = Continue () \<or>
           snd (mquery_pass parse fd w t0 e) = Break ()"
  shows "fst (mquery_pass parse fd w t0 e) =
           [Ev_mdnsd_sleep (sleep_tv e), Ev_select (fd + 1) (sleep_tv e)] @
           (if readable e then fst (recv_loop parse (recvs e)) else []) @
           drain_events (outs e) @
           (if w \<noteq> 0 then [Ev_time (now e)] else [])"
proof -
  from assms have ok: "\<not> snd (out_loop (outs e))"
    by (auto simp: mquery_pass_def Let_def case_prod_beta split: if_splits)
  from assms ok show ?thesis
    by (auto simp: mquery_pass_def Let_def case_prod_beta out_loop_drains split: if_splits)
qed

lemma mquery_loop_passes:
  assumes "\<forall>e\<in>set es. snd (mquery_pass parse fd w t0 e) = Continue ()"
  shows "fst (mquery_loop parse d fd w t0 (es @ es')) =
           concat (map (\<lambda>e. fst (mquery_pass parse fd w t0 e)) es) @
           fst (mquery_loop parse d fd w t0 es') \<and>
         snd (mquery_loop parse d fd w t0 (es @ es')) = snd (mquery_loop parse d fd w t0 es')"
  using assms by (induction es) (simp_all add: case_prod_beta)

text \<open>Claim C6: in every iteration of the query tool's loop, after the datagrams are
  read and the parsed ones fed to \<^verbatim>\<open>mdnsd_in\<close>, \<^verbatim>\<open>mdnsd_out\<close> is drained until it
  returns empty before the loop sleeps again in \<^verbatim>\<open>select\<close> with the timeout from
  \<^verbatim>\<open>mdnsd_sleep\<close>.

  A pass that does not leave the process consists of these calls, in this order:
  \<^verbatim>\<open>mdnsd_sleep\<close>; \<^verbatim>\<open>select\<close> with the timeout that call returned; when the socket is
  readable, the calls of the receive loop, which are reads only; one \<^verbatim>\<open>mdnsd_out\<close> and
  one \<^verbatim>\<open>sendto\<close> for every message the engine has queued, and the \<^verbatim>\<open>mdnsd_out\<close> that
  returns 0; and \<^verbatim>\<open>time\<close> when a wait is set. Passes that continue follow one another
  with nothing in between, so each further \<^verbatim>\<open>select\<close> comes after that drain and the
  \<^verbatim>\<open>mdnsd_sleep\<close> of its own pass. On any passes of the loop, every \<^verbatim>\<open>select\<close>
  follows a call of \<^verbatim>\<open>mdnsd_sleep\<close> and takes the timeout it returned, and is reached
  only after \<^verbatim>\<open>mdnsd_out\<close> has returned 0 with no read and no \<^verbatim>\<open>mdnsd_in\<close>
  since.\<close>

theorem mquery_loop_sleeps_drained:
  "(snd (mquery_pass parse fd w t0 e) = Continue () \<or>
    snd (mquery_pass parse fd w t0 e) = Break () \<longrightarrow>
      fst (mquery_pass parse fd w t0 e) =
        [Ev_mdnsd_sleep (sleep_tv e), Ev_select (fd + 1) (sleep_tv e)] @
        (if readable e then fst (recv_loop parse (recvs e)) else []) @
        drain_events (outs e) @
        (if w \<noteq> 0 then [Ev_time (now e)] else [])) \<and>
   list_all is_read (fst (recv_loop parse rs)) \<and>
   ((\<forall>e\<in>set es. snd (mquery_pass parse fd w t0 e) = Continue ()) \<longrightarrow>
      fst (mquery_loop parse d fd w t0 (es @ es')) =
        concat (map (\<lambda>e. fst (mquery_pass parse fd w t0 e)) es) @
        fst (mquery_loop parse d fd w t0 es') \<and>
      snd (mquery_loop parse d fd w t0 (es @ es')) = snd (mquery_loop parse d fd w t0 es')) \<and>
   sleeps_drained True None (fst (mquery_loop parse d fd w t0 es))"
  using mquery_pass_events [of parse fd w t0 e] recv_loop_reads [of parse rs]
    mquery_loop_passes [of es parse fd w t0 d es'] sleeps_drained_loop [of parse d fd w t0 es]
  by blast

text \<open>The theorem at work: two passes of the query tool of the concrete run, with no
  wait set, on socket 3. In the first the socket is readable: a datagram that parses is
  fed to \<^verbatim>\<open>mdnsd_in\<close>, one that does not parse is dropped, \<^verbatim>\<open>recvfrom\<close> finds
  nothing more, and the one message the engine has queued is fetched and sent before
  \<^verbatim>\<open>mdnsd_out\<close> returns 0. Then the second pass sleeps in \<^verbatim>\<open>select\<close>, with nothing
  to read and nothing to send. The loop is still running.\<close>

theorem mquery_loop_sleeps_drained_witness:
  "mquery_loop (message_parse_ret ex_mq) 0 3 0 1000
     [ex_iter 1000
        [\<lparr> bsize = 4, recv_errno = 0, buf = [0, 0, 0, 0] \<rparr>,
         \<lparr> bsize = 3, recv_errno = 0, buf = [1, 2, 3] \<rparr>]
        [\<lparr> out_packet = [0, 0, 132, 0], sendto_ret = 4 \<rparr>],
      ex_iter 1000 [] []] =
     ([Ev_mdnsd_sleep \<lparr> tv_sec = 1, tv_usec = 0 \<rparr>, Ev_select 4 \<lparr> tv_sec = 1, tv_usec = 0 \<rparr>,
       Ev_recvfrom 4 0, Ev_message_parse [0, 0, 0, 0] 0, Ev_mdnsd_in [0, 0, 0, 0],
       Ev_recvfrom 3 0, Ev_message_parse [1, 2, 3] 1,
       Ev_recvfrom (- 1) 11,
       Ev_mdnsd_out True, Ev_sendto [0, 0, 132, 0] 4, Ev_mdnsd_out False,
       Ev_mdnsd_sleep \<lparr> tv_sec = 1, tv_usec = 0 \<rparr>, Ev_select 4 \<lparr> tv_sec = 1, tv_usec = 0 \<rparr>,
       Ev_mdnsd_out False],
      None)"
proof -
  let ?parse = "message_parse_ret ex_mq"
  let ?p = "ex_iter 1000
        [\<lparr> bsize = 4, recv_errno = 0, buf = [0, 0, 0, 0] \<rparr>,
         \<lparr> bsize = 3, recv_errno = 0, buf = [1, 2, 3] \<rparr>]
        [\<lparr> out_packet = [0, 0, 132, 0], sendto_ret = 4 \<rparr>]"
  let ?q = "ex_iter 1000 [] []"
  have p: "snd (mquery_pass ?parse 3 0 1000 ?p) = Continue ()"
    by (simp add: ex_defs mquery_defs)
  have q: "snd (mquery_pass ?parse 3 0 1000 ?q) = Continue ()"
    by (simp add: ex_defs mquery_defs)
  from p q have all: "\<forall>e\<in>set [?p, ?q]. snd (mquery_pass ?parse 3 0 1000 e) = Continue ()"
    by simp
  from mquery_loop_sleeps_drained [of ?parse 3 0 1000 ?p _ "[?p, ?q]" 0 "[]"] p all
  have first: "fst (mquery_pass ?parse 3 0 1000 ?p) =
        [Ev_mdnsd_sleep (sleep_tv ?p), Ev_select (3 + 1) (sleep_tv ?p)] @
        (if readable ?p then fst (recv_loop ?parse (recvs ?p)) else []) @
        drain_events (outs ?p) @ (if (0::int) \<noteq> 0 then [Ev_time (now ?p)] else [])"
    and loop: "fst (mquery_loop ?parse 0 3 0 1000 ([?p, ?q] @ [])) =
        concat (map (\<lambda>e. fst (mquery_pass ?parse 3 0 1000 e)) [?p, ?q]) @
        fst (mquery_loop ?parse 0 3 0 1000 [])"
    and open_end: "snd (mquery_loop ?parse 0 3 0 1000 ([?p, ?q] @ [])) =
        snd (mquery_loop ?parse 0 3 0 1000 [])"
    by blast+
  from mquery_loop_sleeps_drained [of ?parse 3 0 1000 ?q _ "[]" 0 "[]"] q
  have second: "fst (mquery_pass ?parse 3 0 1000 ?q) =
        [Ev_mdnsd_sleep (sleep_tv ?q), Ev_select (3 + 1) (sleep_tv ?q)] @
        (if readable ?q then fst (recv_loop ?parse (recvs ?q)) else []) @
        drain_events (outs ?q) @ (if (0::int) \<noteq> 0 then [Ev_time (now ?q)] else [])"
    by blast
  have tr1: "fst (mquery_pass ?parse 3 0 1000 ?p) =
      [Ev_mdnsd_sleep \<lparr> tv_sec = 1, tv_usec = 0 \<rparr>, Ev_select 4 \<lparr> tv_sec = 1, tv_usec = 0 \<rparr>,
       Ev_recvfrom 4 0, Ev_message_parse [0, 0, 0, 0] 0, Ev_mdnsd_in [0, 0, 0, 0],
       Ev_recvfrom 3 0, Ev_message_parse [1, 2, 3] 1,
       Ev_recvfrom (- 1) 11,
       Ev_mdnsd_out True, Ev_sendto [0, 0, 132, 0] 4, Ev_mdnsd_out False]"
    unfolding first by (simp add: ex_defs drain_events_def EAGAIN_def)
  have tr2: "fst (mquery_pass ?parse 3 0 1000 ?q) =
      [Ev_mdnsd_sleep \<lparr> tv_sec = 1, tv_usec = 0 \<rparr>, Ev_select 4 \<lparr> tv_sec = 1, tv_usec = 0 \<rparr>,
       Ev_mdnsd_out False]"
    unfolding second by (simp add: ex_defs drain_events_def)
  from loop open_end tr1 tr2 show ?thesis
    by (simp add: prod_eq_iff)
qed


section \<open>Datagrams and the socket of the query tool\<close>

lemma recv_loop_in_packets:
  "mdnsd_in_packets (fst (recv_loop parse rs)) =
     filter (\<lambda>p. parse p = 0) (map buf (takeWhile (\<lambda>r. 0 < bsize r) rs))"
  by (induction rs) (auto split: prod.splits)

lemma recv_loop_rets:
  "recvfrom_rets (fst (recv_loop parse rs)) =
     map bsize (takeWhile (\<lambda>r. 0 < bsize r) rs) @
     [case dropWhile (\<lambda>r. 0 < bsize r) rs of [] \<Rightarrow> - 1 | r # rest \<Rightarrow> bsize r]"
  by (induction rs) (auto split: prod.splits)

lemma recv_loop_snd: "snd (recv_loop parse rs) = snd (recv_loop parse' rs)"
  by (induction rs) (auto split: prod.splits)

lemma mquery_pass_snd: "snd (mquery_pass parse fd w t0 e) = snd (mquery_pass parse' fd w t0 e)"
  using recv_loop_snd [of parse "recvs e" parse']
  by (auto simp: mquery_pass_def Let_def split: prod.splits)

text \<open>Claim C7: a datagram that \<^verbatim>\<open>message_parse\<close> rejects is dropped silently, and the
  receive loop goes on with the next one. For every parser and every sequence of
  \<^verbatim>\<open>recvfrom\<close> returns: the packets passed to \<^verbatim>\<open>mdnsd_in\<close> are exactly the received
  ones that parse, in order; \<^verbatim>\<open>recvfrom\<close> is called for every datagram up to the first
  return that is not positive, whatever the parser said of the ones before; and
  neither the outcome of the receive loop nor whether the pass exits, breaks or
  continues depends on the parser.\<close>

theorem unparsable_datagrams_are_dropped:
  "mdnsd_in_packets (fst (recv_loop parse rs)) =
     filter (\<lambda>p. parse p = 0) (map buf (takeWhile (\<lambda>r. 0 < bsize r) rs)) \<and>
   recvfrom_rets (fst (recv_loop parse rs)) =
     map bsize (takeWhile (\<lambda>r. 0 < bsize r) rs) @
     [case dropWhile (\<lambda>r. 0 < bsize r) rs of [] \<Rightarrow> - 1 | r # rest \<Rightarrow> bsize r] \<and>
   snd (recv_loop parse rs) = snd (recv_loop parse' rs) \<and>
   snd (mquery_pass parse fd w t0 e) = snd (mquery_pass parse' fd w t0 e)"
  using recv_loop_in_packets [of parse rs] recv_loop_rets [of parse rs]
    recv_loop_snd [of parse rs parse'] mquery_pass_snd [of parse fd w t0 e parse']
  by blast

lemma msock_quiet: "socket_failure_msg \<notin> set (fst (msock b env ifn))"
  by (auto simp: msock_def Let_def setsockopt_or_log_def socket_failure_msg_def
           split: option.splits)

lemma mq_parse_opts_quiet: "socket_failure_msg \<notin> set (fst (mq_parse_opts env os s))"
  by (induction env os s rule: mq_parse_opts.induct)
     (simp_all add: mq_usage_def socket_failure_msg_def case_prod_beta)

lemma recv_loop_quiet: "socket_failure_msg \<notin> set (fst (recv_loop parse rs))"
  by (induction rs) (auto simp: socket_failure_msg_def split: prod.splits)

lemma out_loop_quiet: "socket_failure_msg \<notin> set (fst (out_loop ms))"
  by (induction ms) (auto simp: socket_failure_msg_def split: prod.splits)

lemma mquery_pass_quiet: "socket_failure_msg \<notin> set (fst (mquery_pass parse fd w t0 e))"
  using recv_loop_quiet [of parse "recvs e"] out_loop_quiet [of "outs e"]
  by (simp add: mquery_pass_def Let_def case_prod_beta) (simp add: socket_failure_msg_def)

lemma mquery_loop_quiet: "socket_failure_msg \<notin> set (fst (mquery_loop parse d fd w t0 es))"
proof (induction es)
  case Nil
  show ?case by simp
next
  case (Cons e es)
  then show ?case
    using mquery_pass_quiet [of parse fd w t0 e]
    by (cases "mquery_pass parse fd w t0 e"; cases "snd (mquery_pass parse fd w t0 e)")
       (auto simp: case_prod_beta socket_failure_msg_def)
qed

text \<open>Claim C8: \<^verbatim>\<open>msock\<close> returns 0 when \<^verbatim>\<open>socket\<close> or \<^verbatim>\<open>bind\<close> fails and the
  descriptor otherwise, so it never returns \<open>-1\<close>, the one value \<^verbatim>\<open>main\<close> takes for a
  failure, and no run of \<^verbatim>\<open>main\<close> prints the message of its socket error exit.\<close>

theorem msock_never_returns_minus_one:
  "snd (msock b env ifn) =
     (if socket_ret env < 0 \<or> bind_ret env \<noteq> 0 then 0 else socket_ret env) \<and>
   snd (msock b env ifn) \<noteq> - 1 \<and>
   socket_failure_msg \<notin> set (fst (mquery_main b menv cl ps))"
proof -
  have a: "snd (msock b env ifn) =
             (if socket_ret env < 0 \<or> bind_ret env \<noteq> 0 then 0 else socket_ret env)"
    by (rule msock_ret)
  have b: "snd (msock b' env' ifn') \<noteq> - 1" for b' env' ifn'
    by (simp add: msock_ret)
  have c: "socket_failure_msg \<notin> set (fst (mquery_main b menv cl ps))"
    using mq_parse_opts_quiet [of menv "opts cl" mq_init] msock_quiet mquery_loop_quiet b
    by (auto simp: mquery_main_def Let_def case_prod_beta socket_failure_msg_def
             split: sum.splits option.splits prod.splits)
  from a b c show ?thesis by blast
qed

end
